theory Spec2Isabelle
  imports Complex_Main "HOL-Library.Sublist"
begin

section \<open>Data model of game_Version3.js\<close>

text \<open>
  JavaScript numbers are modelled as mathematical reals: \<open>Math.cos\<close>, \<open>Math.sin\<close> and
  \<open>Math.hypot\<close> are the real functions, \<open>Math.floor\<close> is \<open>floor\<close>. The score only ever
  receives results of \<open>Math.floor\<close>, so it is an \<open>int\<close>. The one place where the rounding of
  the doubles decides a value that the statements below depend on is the radius drawn by
  \<open>spawnAsteroid\<close>: there the two operations of \<open>rand\<close> are rounded as IEEE 754 binary64
  rounds them (\<open>double\<close>, \<open>rand_double\<close>).

  The game objects share their fields: every object has a position and a velocity, the
  ship and the asteroids also have a radius.
\<close>

record Body =
  x :: real
  y :: real
  vx :: real
  vy :: real

record Disc = Body +
  radius :: real

record Ship = Disc +
  angle :: real
  thrust :: real

record Bullet = Body +
  life :: real

record Asteroid = Disc +
  rot :: real
  rotSpeed :: real

text \<open>
  The object \<open>state\<close>. \<open>ship\<close> is \<open>null\<close> until the first \<open>reset\<close>; \<open>shotCooldown\<close> is the
  property \<open>state._shotCooldown\<close>, absent (\<open>undefined\<close>) until the first shot.
  \<open>drawn\<close> and \<open>clockReads\<close> count the calls of \<open>Math.random()\<close> and of
  \<open>performance.now()\<close> made so far: they are the positions in the two streams of the
  environment below.
\<close>

record State =
  ship :: "Ship option"
  bullets :: "Bullet list"
  asteroids :: "Asteroid list"
  score :: int
  lastSpawn :: real
  spawnInterval :: real
  lastTime :: real
  gameOver :: bool
  shotCooldown :: "real option"
  drawn :: nat
  clockReads :: nat

text \<open>A result of \<open>Math.random()\<close>: a number that is at least 0 and less than 1.\<close>

typedef draw = "{r::real. 0 \<le> r \<and> r < 1}"
  morphisms draw_val Draw
  by (rule exI [of _ 0]) simp

text \<open>
  What \<open>step\<close>, \<open>reset\<close> and \<open>spawnAsteroid\<close> read and do not write: the size of the canvas
  (\<open>canvas.clientWidth\<close> and \<open>canvas.clientHeight\<close>, non-negative integers), the map
  \<open>keys\<close> of held keys (\<open>keys e c\<close> is the truthiness of \<open>keys[c]\<close>), the two debug
  globals, the successive results of \<open>Math.random()\<close> and the successive readings of
  \<open>performance.now()\<close>.
\<close>

record Env =
  clientWidth :: nat
  clientHeight :: nat
  keys :: "string \<Rightarrow> bool"
  spawnFastToggle :: bool
  shipSpeedMult :: real
  Math_random :: "nat \<Rightarrow> draw"
  performance_now :: "nat \<Rightarrow> real"

definition SPAWN_INTERVAL_BASE :: real where
  "SPAWN_INTERVAL_BASE = 1200"

section \<open>Utilities\<close>

text \<open>\<open>rand(min,max)\<close>, applied to the result \<open>u\<close> of its call of \<open>Math.random()\<close>.\<close>

definition rand :: "draw \<Rightarrow> real \<Rightarrow> real \<Rightarrow> real" where
  "rand u mn mx = draw_val u * (mx - mn) + mn"

definition hypot :: "real \<Rightarrow> real \<Rightarrow> real" where
  "hypot a b = sqrt (a\<^sup>2 + b\<^sup>2)"

text \<open>
  The double nearest to a real, ties to the even significand: 53 bits in the binade of the
  value, the fixed spacing \<open>2 powr - 1074\<close> below \<open>2 powr - 1022\<close>. Overflow to \<open>Infinity\<close> is
  not modelled; \<open>double\<close> is only applied to values below 64. \<open>rand_double\<close> is \<open>rand\<close> with
  each of its operations rounded.
\<close>

definition round_even :: "real \<Rightarrow> int" where
  "round_even q =
     (let f = \<lfloor>q\<rfloor>
      in if q - of_int f < 1 / 2 then f
         else if 1 / 2 < q - of_int f then f + 1
         else if even f then f else f + 1)"

definition double :: "real \<Rightarrow> real" where
  "double v =
     (if v = 0 then 0
      else (let e = max \<lfloor>log 2 \<bar>v\<bar>\<rfloor> (- 1022);
                u = 2 powr of_int (e - 52)
            in sgn v * (u * of_int (round_even (\<bar>v\<bar> / u)))))"

definition rand_double :: "draw \<Rightarrow> real \<Rightarrow> real \<Rightarrow> real" where
  "rand_double u mn mx = double (double (draw_val u * double (mx - mn)) + mn)"

text \<open>\<open>xs.splice(i, n)\<close> for a start index \<open>i \<ge> 0\<close>: the array without the \<open>n\<close> elements from \<open>i\<close>.\<close>

definition array_splice :: "nat \<Rightarrow> nat \<Rightarrow> 'a list \<Rightarrow> 'a list" where
  "array_splice i n xs = take i xs @ drop (i + n) xs"

text \<open>The \<open>k\<close>-th next result of \<open>Math.random()\<close>, and the next reading of the clock.\<close>

definition next_draw :: "Env \<Rightarrow> State \<Rightarrow> nat \<Rightarrow> draw" where
  "next_draw e st k = Math_random e (drawn st + k)"

definition clock :: "Env \<Rightarrow> State \<Rightarrow> real" where
  "clock e st = performance_now e (clockReads st)"

definition tick_clock :: "State \<Rightarrow> State" where
  "tick_clock st = st\<lparr>clockReads := Suc (clockReads st)\<rparr>"

section \<open>reset, spawnAsteroid, shoot\<close>

text \<open>
  \<open>reset\<close> reads the clock once. \<open>updateScore\<close> and \<open>updateDebug\<close> only write to the page
  and are left out.
\<close>

definition reset :: "Env \<Rightarrow> State \<Rightarrow> State" where
  "reset e st =
     (let w = real (clientWidth e); h = real (clientHeight e)
      in tick_clock (st\<lparr>
           ship := Some \<lparr>x = w / 2, y = h / 2, vx = 0, vy = 0, radius = 14,
                         angle = - pi / 2, thrust = 0\<rparr>,
           bullets := [],
           asteroids := [],
           score := 0,
           lastSpawn := clock e st,
           spawnInterval := (if spawnFastToggle e then 500 else SPAWN_INTERVAL_BASE),
           gameOver := False\<rparr>))"

text \<open>
  \<open>spawnAsteroid\<close> makes seven calls of \<open>Math.random()\<close>: the edge, three for the edge's
  branch, the radius (rounded as the doubles are), and \<open>rot\<close> and \<open>rotSpeed\<close> in the object
  literal. The source tests
  \<open>edge === 0\<close> to \<open>edge === 3\<close> in four separate statements; \<open>edge_cases\<close> below shows that
  no other value occurs, so the last test is the \<open>else\<close> here.
\<close>

definition spawn_edge :: "draw \<Rightarrow> int" where
  "spawn_edge u = \<lfloor>rand u 0 4\<rfloor>"

definition spawn_radius :: "draw \<Rightarrow> int" where
  "spawn_radius u = \<lfloor>rand_double u 18 44\<rfloor>"

definition spawnAsteroid :: "Env \<Rightarrow> State \<Rightarrow> State" where
  "spawnAsteroid e st =
     (let w = real (clientWidth e); h = real (clientHeight e);
          d = next_draw e st;
          edge = spawn_edge (d 0);
          (px, py, pvx, pvy) =
            (if edge = 0 then (- 40, rand (d 1) 0 h, rand (d 2) 0.3 1.1, rand (d 3) (- 0.6) 0.6)
             else if edge = 1 then
               (w + 40, rand (d 1) 0 h, rand (d 2) (- 1.1) (- 0.3), rand (d 3) (- 0.6) 0.6)
             else if edge = 2 then
               (rand (d 1) 0 w, - 40, rand (d 2) (- 0.6) 0.6, rand (d 3) 0.3 1.1)
             else
               (rand (d 1) 0 w, h + 40, rand (d 2) (- 0.6) 0.6, rand (d 3) (- 1.1) (- 0.3)));
          r = spawn_radius (d 4)
      in st\<lparr>asteroids := asteroids st @
               [\<lparr>x = px, y = py, vx = pvx, vy = pvy, radius = real_of_int r,
                 rot = rand (d 5) 0 (pi * 2), rotSpeed = rand (d 6) (- 0.02) 0.02\<rparr>],
             drawn := drawn st + 7\<rparr>)"

text \<open>
  \<open>shoot\<close> reads \<open>state.ship\<close> and pushes the object literal \<open>new_bullet\<close>. Reading a
  field of \<open>null\<close> or of \<open>undefined\<close> throws a TypeError, which is \<open>None\<close> here and in every
  function below.
\<close>

definition new_bullet :: "Ship \<Rightarrow> Bullet" where
  "new_bullet s =
     (let speed = 6;
          bx = x s + cos (angle s) * (radius s + 6);
          by = y s + sin (angle s) * (radius s + 6);
          bvx = vx s + cos (angle s) * speed;
          bvy = vy s + sin (angle s) * speed
      in \<lparr>x = bx, y = by, vx = bvx, vy = bvy, life = 120\<rparr>)"

definition shoot :: "State \<Rightarrow> State option" where
  "shoot st =
     (case ship st of
        None \<Rightarrow> None
      | Some s \<Rightarrow> Some (st\<lparr>bullets := bullets st @ [new_bullet s]\<rparr>))"

section \<open>The phases of step\<close>

text \<open>Lines 147 to 154: rotation and thrust, on the ship object \<open>s\<close>.\<close>

definition controls :: "Env \<Rightarrow> real \<Rightarrow> Ship \<Rightarrow> Ship" where
  "controls e dt s =
     (let s1 = (if keys e ''ArrowLeft'' \<or> keys e ''KeyA''
                then s\<lparr>angle := angle s - 0.0035 * dt\<rparr> else s);
          s2 = (if keys e ''ArrowRight'' \<or> keys e ''KeyD''
                then s1\<lparr>angle := angle s1 + 0.0035 * dt\<rparr> else s1)
      in if keys e ''ArrowUp'' \<or> keys e ''KeyW''
         then (let force = 0.0026 * dt * shipSpeedMult e
               in s2\<lparr>vx := vx s2 + cos (angle s2) * force,
                     vy := vy s2 + sin (angle s2) * force,
                     thrust := 1\<rparr>)
         else s2\<lparr>thrust := 0\<rparr>)"

text \<open>
  Lines 155 to 160. \<open>!state._shotCooldown\<close> holds for \<open>undefined\<close> and for \<open>0\<close>, and then the
  clock is not read for the test; it is read once more for the assignment.
\<close>

definition fire :: "Env \<Rightarrow> State \<Rightarrow> State option" where
  "fire e st =
     (if keys e ''Space'' then
        (case shotCooldown st of
           None \<Rightarrow> map_option (\<lambda>st'. tick_clock (st'\<lparr>shotCooldown := Some (clock e st')\<rparr>))
                     (shoot st)
         | Some c \<Rightarrow>
             if c = 0 then
               map_option (\<lambda>st'. tick_clock (st'\<lparr>shotCooldown := Some (clock e st')\<rparr>))
                 (shoot st)
             else
               (let st1 = tick_clock st
                in if clock e st - c > 180 then
                     map_option (\<lambda>st'. tick_clock (st'\<lparr>shotCooldown := Some (clock e st')\<rparr>))
                       (shoot st1)
                   else Some st1))
      else Some st)"

text \<open>Line 161: the test that calls \<open>reset\<close>.\<close>

definition restarts :: "Env \<Rightarrow> State \<Rightarrow> bool" where
  "restarts e st \<longleftrightarrow> keys e ''KeyR'' \<and> gameOver st"

text \<open>Lines 164 to 166: friction and integration of the ship.\<close>

definition integrate :: "real \<Rightarrow> Ship \<Rightarrow> Ship" where
  "integrate dt s =
     (let s1 = s\<lparr>vx := vx s * 0.999, vy := vy s * 0.999\<rparr>;
          s2 = s1\<lparr>x := x s1 + vx s1 * dt\<rparr>
      in s2\<lparr>y := y s2 + vy s2 * dt\<rparr>)"

text \<open>Lines 169 to 173: the four wrap statements, in the order of the source.\<close>

definition wrap :: "Env \<Rightarrow> Ship \<Rightarrow> Ship" where
  "wrap e s =
     (let w = real (clientWidth e); h = real (clientHeight e);
          s1 = (if x s < - 50 then s\<lparr>x := w + 50\<rparr> else s);
          s2 = (if x s1 > w + 50 then s1\<lparr>x := - 50\<rparr> else s1);
          s3 = (if y s2 < - 50 then s2\<lparr>y := h + 50\<rparr> else s2)
      in if y s3 > h + 50 then s3\<lparr>y := - 50\<rparr> else s3)"

text \<open>
  Lines 176 to 182, the loop over \<open>state.bullets\<close> from the last index down. The first
  argument after \<open>dt\<close> is \<open>i + 1\<close>. \<open>state.bullets[i]\<close> beyond the end is \<open>undefined\<close> and
  reading its field throws.
\<close>

definition move_bullet :: "real \<Rightarrow> Bullet \<Rightarrow> Bullet" where
  "move_bullet dt b =
     (let b1 = b\<lparr>x := x b + vx b * dt\<rparr>;
          b2 = b1\<lparr>y := y b1 + vy b1 * dt\<rparr>
      in b2\<lparr>life := life b2 - dt\<rparr>)"

fun update_bullets :: "real \<Rightarrow> nat \<Rightarrow> Bullet list \<Rightarrow> Bullet list option" where
  "update_bullets dt 0 bs = Some bs"
| "update_bullets dt (Suc i) bs =
     (if i < length bs then
        (let b = move_bullet dt (bs ! i);
             bs1 = bs[i := b]
         in if life b \<le> 0 then update_bullets dt i (array_splice i 1 bs1)
            else update_bullets dt i bs1)
      else None)"

text \<open>Lines 185 to 192: the spawn tick. The clock is read once, whether or not it spawns.\<close>

definition spawn_tick :: "Env \<Rightarrow> State \<Rightarrow> State" where
  "spawn_tick e st =
     (let now = clock e st; st1 = tick_clock st
      in if now - lastSpawn st1 > spawnInterval st1 then
           (let st2 = spawnAsteroid e st1;
                st3 = st2\<lparr>lastSpawn := now\<rparr>
            in st3\<lparr>spawnInterval := max 500 (spawnInterval st3 * 0.98)\<rparr>)
         else st1)"

text \<open>Lines 195 to 204: the loop over \<open>state.asteroids\<close> from the last index down.\<close>

definition move_asteroid :: "real \<Rightarrow> Asteroid \<Rightarrow> Asteroid" where
  "move_asteroid dt a =
     (let a1 = a\<lparr>x := x a + vx a * dt * 0.9\<rparr>;
          a2 = a1\<lparr>y := y a1 + vy a1 * dt * 0.9\<rparr>
      in a2\<lparr>rot := rot a2 + rotSpeed a2 * dt\<rparr>)"

definition far_outside :: "Env \<Rightarrow> Asteroid \<Rightarrow> bool" where
  "far_outside e a \<longleftrightarrow>
     x a < - 200 \<or> x a > real (clientWidth e) + 200 \<or>
     y a < - 200 \<or> y a > real (clientHeight e) + 200"

fun update_asteroids :: "Env \<Rightarrow> real \<Rightarrow> nat \<Rightarrow> Asteroid list \<Rightarrow> Asteroid list option" where
  "update_asteroids e dt 0 as = Some as"
| "update_asteroids e dt (Suc i) as =
     (if i < length as then
        (let a = move_asteroid dt (as ! i);
             as1 = as[i := a]
         in if far_outside e a then update_asteroids e dt i (array_splice i 1 as1)
            else update_asteroids e dt i as1)
      else None)"

text \<open>
  Lines 207 to 236: bullets against asteroids. \<open>fragment\<close> is the object literal of one
  pass of the loop over \<open>k\<close>, with the six results of \<open>Math.random()\<close> from position \<open>n\<close>;
  \<open>award\<close> is \<open>Math.floor(100 - a.radius)\<close>; \<open>hit\<close> is the body of the \<open>if\<close> for asteroid \<open>i\<close>
  and bullet \<open>j\<close>, up to the \<open>break\<close>.
\<close>

definition fragment :: "Env \<Rightarrow> nat \<Rightarrow> Asteroid \<Rightarrow> Asteroid" where
  "fragment e n a =
     (let nr = radius a * 0.55
      in \<lparr>x = x a + rand (Math_random e n) (- 10) 10,
          y = y a + rand (Math_random e (n + 1)) (- 10) 10,
          vx = vx a + rand (Math_random e (n + 2)) (- 1) 1,
          vy = vy a + rand (Math_random e (n + 3)) (- 1) 1,
          radius = nr,
          rot = rand (Math_random e (n + 4)) 0 (pi * 2),
          rotSpeed = rand (Math_random e (n + 5)) (- 0.04) 0.04\<rparr>)"

definition fragments :: "Env \<Rightarrow> nat \<Rightarrow> Asteroid \<Rightarrow> Asteroid list" where
  "fragments e n a = (if radius a > 26 then [fragment e n a, fragment e (n + 6) a] else [])"

definition award :: "Asteroid \<Rightarrow> int" where
  "award a = \<lfloor>100 - radius a\<rfloor>"

definition hit :: "Env \<Rightarrow> Asteroid \<Rightarrow> nat \<Rightarrow> nat \<Rightarrow> State \<Rightarrow> State" where
  "hit e a i j st =
     (let st1 = st\<lparr>bullets := array_splice j 1 (bullets st)\<rparr>;
          st2 = st1\<lparr>asteroids := array_splice i 1 (asteroids st1)\<rparr>;
          st3 = st2\<lparr>score := score st2 + award a\<rparr>
      in st3\<lparr>asteroids := asteroids st3 @ fragments e (drawn st3) a,
             drawn := drawn st3 + 6 * length (fragments e (drawn st3) a)\<rparr>)"

definition touches :: "Asteroid \<Rightarrow> Bullet \<Rightarrow> bool" where
  "touches a b \<longleftrightarrow> hypot (x a - x b) (y a - y b) < radius a + 2"

text \<open>The inner loop over the bullets, for the asteroid \<open>a\<close> read at index \<open>i\<close>.\<close>

fun scan_bullets :: "Env \<Rightarrow> Asteroid \<Rightarrow> nat \<Rightarrow> nat \<Rightarrow> State \<Rightarrow> State option" where
  "scan_bullets e a i 0 st = Some st"
| "scan_bullets e a i (Suc j) st =
     (if j < length (bullets st) then
        (if touches a (bullets st ! j) then Some (hit e a i j st)
         else scan_bullets e a i j st)
      else None)"

text \<open>
  The outer loop over the asteroids; the second argument is \<open>i + 1\<close>. An \<open>a\<close> read beyond
  the end is \<open>undefined\<close>, and the inner loop throws at its first bullet; here the read
  itself is \<open>None\<close>, also when there is no bullet.
\<close>

fun collide_bullets :: "Env \<Rightarrow> nat \<Rightarrow> State \<Rightarrow> State option" where
  "collide_bullets e 0 st = Some st"
| "collide_bullets e (Suc i) st =
     (if i < length (asteroids st) then
        (case scan_bullets e (asteroids st ! i) i (length (bullets st)) st of
           None \<Rightarrow> None
         | Some st1 \<Rightarrow> collide_bullets e i st1)
      else None)"

text \<open>Lines 239 to 244: the ship \<open>s\<close> of this call against the asteroids.\<close>

definition crashes :: "Ship \<Rightarrow> Asteroid \<Rightarrow> bool" where
  "crashes s a \<longleftrightarrow> hypot (x a - x s) (y a - y s) < radius a + radius s - 4"

fun collide_ship :: "Ship \<Rightarrow> nat \<Rightarrow> State \<Rightarrow> State option" where
  "collide_ship s 0 st = Some st"
| "collide_ship s (Suc i) st =
     (if i < length (asteroids st) then
        (if crashes s (asteroids st ! i) then collide_ship s i (st\<lparr>gameOver := True\<rparr>)
         else collide_ship s i st)
      else None)"

section \<open>step and loop\<close>

text \<open>
  \<open>step\<close> binds \<open>s\<close> to the ship object once, at its first line. Every later write to \<open>s\<close>
  is a write to \<open>state.ship\<close> as long as \<open>state.ship\<close> is that object; \<open>reset\<close> stores a
  new object in \<open>state.ship\<close>, and from then on the writes to \<open>s\<close> no longer reach the
  state, while the ship collisions of line 241 still read \<open>s\<close>.
\<close>

definition after_controls :: "Env \<Rightarrow> real \<Rightarrow> State \<Rightarrow> Ship \<Rightarrow> State option" where
  "after_controls e dt st s0 = fire e (st\<lparr>ship := Some (controls e dt s0)\<rparr>)"

definition after_restart :: "Env \<Rightarrow> State \<Rightarrow> State" where
  "after_restart e st = (if restarts e st then reset e st else st)"

definition physics :: "Env \<Rightarrow> real \<Rightarrow> Ship \<Rightarrow> bool \<Rightarrow> State \<Rightarrow> State" where
  "physics e dt s detached st =
     (if detached then st else st\<lparr>ship := Some (wrap e (integrate dt s))\<rparr>)"

definition step :: "Env \<Rightarrow> real \<Rightarrow> State \<Rightarrow> State option" where
  "step e dt st =
     (case ship st of
        None \<Rightarrow> Some st
      | Some s0 \<Rightarrow>
          (case after_controls e dt st s0 of
             None \<Rightarrow> None
           | Some st2 \<Rightarrow>
               (let s1 = controls e dt s0;
                    st3 = after_restart e st2;
                    s2 = wrap e (integrate dt s1);
                    st4 = physics e dt s1 (restarts e st2) st3
                in case update_bullets dt (length (bullets st4)) (bullets st4) of
                     None \<Rightarrow> None
                   | Some bs \<Rightarrow>
                       (let st5 = spawn_tick e (st4\<lparr>bullets := bs\<rparr>)
                        in case update_asteroids e dt (length (asteroids st5)) (asteroids st5) of
                             None \<Rightarrow> None
                           | Some as \<Rightarrow>
                               (case collide_bullets e (length as) (st5\<lparr>asteroids := as\<rparr>) of
                                  None \<Rightarrow> None
                                | Some st6 \<Rightarrow>
                                    collide_ship s2 (length (asteroids st6)) st6)))))"

text \<open>
  \<open>loop\<close>, one animation frame at the time stamp \<open>now\<close>. \<open>render\<close> only reads the state.
\<close>

definition frame_dt :: "real \<Rightarrow> State \<Rightarrow> real" where
  "frame_dt now st = min 40 (now - lastTime st)"

definition loop :: "Env \<Rightarrow> real \<Rightarrow> State \<Rightarrow> State option" where
  "loop e now st =
     (let dt = frame_dt now st;
          st1 = st\<lparr>lastTime := now\<rparr>
      in if \<not> gameOver st1 then step e dt st1 else Some st1)"

section \<open>Notions for the statements\<close>

text \<open>
  What the two update loops compute: the moved bullets that still have life, and the moved
  asteroids that are not far outside.
\<close>

definition alive :: "real \<Rightarrow> Bullet list \<Rightarrow> Bullet list" where
  "alive dt bs = filter (\<lambda>b. \<not> life b \<le> 0) (map (move_bullet dt) bs)"

definition drifting :: "Env \<Rightarrow> real \<Rightarrow> Asteroid list \<Rightarrow> Asteroid list" where
  "drifting e dt as = filter (\<lambda>a. \<not> far_outside e a) (map (move_asteroid dt) as)"

text \<open>
  The state of \<open>step\<close> at line 206, from the state \<open>st2\<close> after the controls and the shot and
  the ship \<open>s1\<close> after the controls; the ship \<open>s\<close> of \<open>step\<close> at its end; and the effect of the
  loop of lines 239 to 244.
\<close>

definition before_collisions :: "Env \<Rightarrow> real \<Rightarrow> Ship \<Rightarrow> State \<Rightarrow> State" where
  "before_collisions e dt s1 st2 =
     (let st4 = physics e dt s1 (restarts e st2) (after_restart e st2);
          st5 = spawn_tick e (st4\<lparr>bullets := alive dt (bullets st4)\<rparr>)
      in st5\<lparr>asteroids := drifting e dt (asteroids st5)\<rparr>)"

definition moved :: "Env \<Rightarrow> real \<Rightarrow> Ship \<Rightarrow> Ship" where
  "moved e dt s0 = wrap e (integrate dt (controls e dt s0))"

definition finish :: "Ship \<Rightarrow> State \<Rightarrow> State" where
  "finish s st = st\<lparr>gameOver := gameOver st \<or> (\<exists>a \<in> set (asteroids st). crashes s a)\<rparr>"

text \<open>
  What the collision loop has done when it has passed the indices below \<open>k\<close>: of the first
  \<open>k\<close> asteroids the subsequence \<open>S\<close> is left and the asteroids \<open>D\<close> are destroyed, one bullet
  is gone for each asteroid of \<open>D\<close>, the score has grown by their awards, and \<open>F\<close>, appended
  at the end, are their fragments.
\<close>

definition resolution ::
  "nat \<Rightarrow> State \<Rightarrow> State \<Rightarrow> Asteroid list \<Rightarrow> Asteroid list \<Rightarrow> Asteroid list \<Rightarrow> bool" where
  "resolution k st st' S D F \<longleftrightarrow>
     asteroids st' = S @ drop k (asteroids st) @ F \<and>
     subseq S (take k (asteroids st)) \<and>
     set D \<subseteq> set (take k (asteroids st)) \<and>
     length S + length D = k \<and>
     subseq (bullets st') (bullets st) \<and>
     length (bullets st') + length D = length (bullets st) \<and>
     score st' = score st + sum_list (map award D) \<and>
     (\<forall>f \<in> set F. \<exists>a \<in> set D. 26 < radius a \<and> radius f = radius a * 0.55) \<and>
     length F = 2 * length (filter (\<lambda>a. 26 < radius a) D)"

definition radii_below :: "real \<Rightarrow> State \<Rightarrow> bool" where
  "radii_below r st \<longleftrightarrow> (\<forall>a \<in> set (asteroids st). radius a \<le> r)"

text \<open>
  A sequence of calls of \<open>step\<close>, each with its environment and its \<open>dt\<close>, and the sequences
  in which the test of line 161 never succeeds.
\<close>

fun run :: "(Env \<times> real) list \<Rightarrow> State \<Rightarrow> State option" where
  "run [] st = Some st"
| "run ((e, dt) # es) st = (case step e dt st of None \<Rightarrow> None | Some st1 \<Rightarrow> run es st1)"

fun no_restart :: "(Env \<times> real) list \<Rightarrow> State \<Rightarrow> bool" where
  "no_restart [] st = True"
| "no_restart ((e, dt) # es) st =
     (\<not> restarts e st \<and> (case step e dt st of None \<Rightarrow> True | Some st1 \<Rightarrow> no_restart es st1))"

text \<open>The \<open>clamp(value, low, high)\<close> of the specification of the Driver.\<close>

definition clamp :: "real \<Rightarrow> real \<Rightarrow> real \<Rightarrow> real" where
  "clamp v lo hi = max lo (min hi v)"

text \<open>Successive animation frames: the calls of \<open>loop\<close> with their time stamps.\<close>

fun frames :: "(Env \<times> real) list \<Rightarrow> State \<Rightarrow> State option" where
  "frames [] st = Some st"
| "frames ((e, now) # fs) st = (case loop e now st of None \<Rightarrow> None | Some st1 \<Rightarrow> frames fs st1)"

text \<open>
  The object literal of line 83, the state when the script starts; \<open>lastTime\<close> is the first
  reading of the clock.
\<close>

definition initial :: "Env \<Rightarrow> State" where
  "initial e = \<lparr>ship = None, bullets = [], asteroids = [], score = 0, lastSpawn = 0,
                spawnInterval = SPAWN_INTERVAL_BASE, lastTime = performance_now e 0,
                gameOver = False, shotCooldown = None, drawn = 0, clockReads = 1\<rparr>"

text \<open>
  Line 62, the only write to \<open>state\<close> in the key handlers (debug key F); \<open>e\<close> is the
  environment after the toggle of line 61.
\<close>

definition keydown_KeyF :: "Env \<Rightarrow> State \<Rightarrow> State" where
  "keydown_KeyF e st =
     st\<lparr>spawnInterval := (if spawnFastToggle e then 500 else SPAWN_INTERVAL_BASE)\<rparr>"

text \<open>
  The states of a running program: it starts in \<open>initial\<close>, and every function that writes to
  \<open>state\<close> may be called next, in any order and in any environment.
\<close>

inductive reachable :: "State \<Rightarrow> bool" where
  start: "reachable (initial e)"
| by_reset: "reachable st \<Longrightarrow> reachable (reset e st)"
| by_spawn: "reachable st \<Longrightarrow> reachable (spawnAsteroid e st)"
| by_step: "reachable st \<Longrightarrow> step e dt st = Some st' \<Longrightarrow> reachable st'"
| by_frame: "reachable st \<Longrightarrow> loop e now st = Some st' \<Longrightarrow> reachable st'"
| by_key: "reachable st \<Longrightarrow> reachable (keydown_KeyF e st)"

section \<open>Example inputs\<close>

text \<open>
  An environment without held keys, with a clock that stands still and with every random
  draw equal to one half; its variants with a later clock and with one key held; and
  states built from a ship, an asteroid and a bullet at rest.
\<close>

definition quiet :: Env where
  "quiet = \<lparr>clientWidth = 800, clientHeight = 600, keys = (\<lambda>c. False),
            spawnFastToggle = False, shipSpeedMult = 1,
            Math_random = (\<lambda>n. Draw (1 / 2)), performance_now = (\<lambda>n. 0)\<rparr>"

definition later :: Env where
  "later = quiet\<lparr>performance_now := (\<lambda>n. 2000)\<rparr>"

definition holding :: "string \<Rightarrow> Env" where
  "holding c = quiet\<lparr>keys := (\<lambda>k. k = c)\<rparr>"

definition pilot :: Ship where
  "pilot = \<lparr>x = 100, y = 300, vx = 0, vy = 0, radius = 14, angle = 0, thrust = 0\<rparr>"

definition rock :: "real \<Rightarrow> Asteroid" where
  "rock r = \<lparr>x = 100, y = 100, vx = 0, vy = 0, radius = r, rot = 0, rotSpeed = 0\<rparr>"

definition shot :: Bullet where
  "shot = \<lparr>x = 100, y = 100, vx = 0, vy = 0, life = 120\<rparr>"

definition arena :: "Asteroid list \<Rightarrow> Bullet list \<Rightarrow> State" where
  "arena as bs = \<lparr>ship = Some pilot, bullets = bs, asteroids = as, score = 0, lastSpawn = 0,
                  spawnInterval = 1200, lastTime = 0, gameOver = False, shotCooldown = None,
                  drawn = 0, clockReads = 0\<rparr>"

definition wreck :: State where
  "wreck = (arena [rock 30] [shot])\<lparr>ship := Some (pilot\<lparr>vx := 1\<rparr>), gameOver := True\<rparr>"

definition veteran :: State where
  "veteran = (arena [] [])\<lparr>lastTime := 5000, shotCooldown := Some 4900\<rparr>"

definition drifter :: State where
  "drifter = (arena [] [])\<lparr>ship := Some (pilot\<lparr>x := - 49, vx := - 1\<rparr>)\<rparr>"

text \<open>
  The environment with the fast toggle set, and the state after a first press of the
  key F; the environment whose fifth draw, the one of the radius, is the largest double
  below 1, and the state after a spawn in it.
\<close>

definition fast :: Env where
  "fast = quiet\<lparr>spawnFastToggle := True\<rparr>"

definition hurried :: State where
  "hurried = keydown_KeyF fast (reset quiet (initial quiet))"

definition top_draw :: draw where
  "top_draw = Draw (1 - 1 / 2 ^ 53)"

definition lucky :: Env where
  "lucky = quiet\<lparr>Math_random := (\<lambda>n. if n = 4 then top_draw else Draw (1 / 2))\<rparr>"

definition biggest :: State where
  "biggest = spawnAsteroid lucky (reset quiet (initial quiet))"

section \<open>Lemmas\<close>

lemma draw_val_ge0: "0 \<le> draw_val u"
  using draw_val [of u] by simp

lemma draw_val_less1: "draw_val u < 1"
  using draw_val [of u] by simp

lemma rand_bounds:
  assumes "mn \<le> mx"
  shows "mn \<le> rand u mn mx" and "rand u mn mx \<le> mx"
proof -
  have a: "0 \<le> draw_val u * (mx - mn)"
    using assms draw_val_ge0 [of u] by simp
  have "draw_val u * (mx - mn) \<le> 1 * (mx - mn)"
    using assms draw_val_less1 [of u] by (intro mult_right_mono) simp_all
  then show "mn \<le> rand u mn mx" and "rand u mn mx \<le> mx"
    using a by (simp_all add: rand_def)
qed

lemma rand_less:
  assumes "mn < mx"
  shows "rand u mn mx < mx"
proof -
  have "draw_val u * (mx - mn) < 1 * (mx - mn)"
    using assms draw_val_less1 [of u] by (intro mult_strict_right_mono) simp_all
  then show ?thesis by (simp add: rand_def)
qed

lemma edge_cases: "spawn_edge u = 0 \<or> spawn_edge u = 1 \<or> spawn_edge u = 2 \<or> spawn_edge u = 3"
proof -
  have "0 \<le> rand u 0 4" "rand u 0 4 < 4"
    using rand_bounds(1) [of 0 4 u] rand_less [of 0 4 u] by simp_all
  then have "0 \<le> \<lfloor>rand u 0 4\<rfloor>" "\<lfloor>rand u 0 4\<rfloor> < 4"
    by (simp_all add: floor_less_iff)
  then show ?thesis unfolding spawn_edge_def by linarith
qed

lemma round_even_ge: "of_int k \<le> q \<Longrightarrow> k \<le> round_even q"
proof -
  assume "of_int k \<le> q"
  then have "k \<le> \<lfloor>q\<rfloor>" by (simp add: le_floor_iff)
  then show ?thesis by (simp add: round_even_def Let_def)
qed

lemma round_even_le: "q \<le> of_int k \<Longrightarrow> round_even q \<le> k"
proof (cases "q = of_int \<lfloor>q\<rfloor>")
  case True
  assume "q \<le> of_int k"
  then have "\<lfloor>q\<rfloor> \<le> k" by (simp add: floor_le_iff)
  moreover have "round_even q = \<lfloor>q\<rfloor>" using True by (simp add: round_even_def Let_def)
  ultimately show ?thesis by simp
next
  case False
  assume q: "q \<le> of_int k"
  have "of_int \<lfloor>q\<rfloor> < q" using False of_int_floor_le [of q] by linarith
  with q have "of_int \<lfloor>q\<rfloor> < (of_int k :: real)" by linarith
  then have "\<lfloor>q\<rfloor> + 1 \<le> k" by simp
  moreover have "round_even q \<le> \<lfloor>q\<rfloor> + 1" by (simp add: round_even_def Let_def)
  ultimately show ?thesis by linarith
qed

lemma double_grid:
  assumes "0 < v" "v < 2 ^ 53"
  obtains n where "double v = of_int (round_even (v * 2 ^ n)) / 2 ^ n"
proof -
  let ?e = "max \<lfloor>log 2 \<bar>v\<bar>\<rfloor> (- 1022)"
  have "log 2 v < 53"
    using assms by (simp add: log_less_iff powr_realpow [symmetric] del: powr_realpow)
  then have "\<lfloor>log 2 v\<rfloor> \<le> 52" by (simp add: floor_le_iff)
  then have e: "?e \<le> 52" using assms by simp
  define n where "n = nat (52 - ?e)"
  have "real_of_int (?e - 52) = - real n" using e by (simp add: n_def)
  moreover have "(2::real) powr (- real n) = 1 / 2 ^ n"
    by (simp add: powr_minus_divide powr_realpow)
  ultimately have u: "(2::real) powr real_of_int (?e - 52) = 1 / 2 ^ n"
    by (simp only:)
  have "double v = of_int (round_even (v * 2 ^ n)) / 2 ^ n"
    using assms(1) unfolding double_def Let_def u by simp
  then show ?thesis by (rule that)
qed

lemma double_ge:
  assumes "0 < v" "v < 2 ^ 53" "of_int m \<le> v"
  shows "of_int m \<le> double v"
proof -
  from double_grid [OF assms(1,2)] obtain n where
    d: "double v = of_int (round_even (v * 2 ^ n)) / 2 ^ n" by blast
  have "of_int (m * 2 ^ n) \<le> v * 2 ^ n" using assms(3) by simp
  then have "m * 2 ^ n \<le> round_even (v * 2 ^ n)" by (rule round_even_ge)
  then have "of_int (m * 2 ^ n) \<le> (of_int (round_even (v * 2 ^ n)) :: real)"
    by (simp only: of_int_le_iff)
  then show ?thesis unfolding d by (simp add: pos_le_divide_eq)
qed

lemma double_le:
  assumes "0 < v" "v < 2 ^ 53" "v \<le> of_int m"
  shows "double v \<le> of_int m"
proof -
  from double_grid [OF assms(1,2)] obtain n where
    d: "double v = of_int (round_even (v * 2 ^ n)) / 2 ^ n" by blast
  have "v * 2 ^ n \<le> of_int (m * 2 ^ n)" using assms(3) by simp
  then have "round_even (v * 2 ^ n) \<le> m * 2 ^ n" by (rule round_even_le)
  then have "(of_int (round_even (v * 2 ^ n)) :: real) \<le> of_int (m * 2 ^ n)"
    by (simp only: of_int_le_iff)
  then show ?thesis unfolding d by (simp add: pos_divide_le_eq)
qed

lemma double_binade:
  assumes "2 ^ k \<le> v" "v < 2 ^ Suc k" "k \<le> 52"
  shows "double v = of_int (round_even (v * 2 ^ (52 - k))) / 2 ^ (52 - k)"
proof -
  have v: "0 < v" using assms(1) by (smt (verit) zero_less_power)
  have "\<lfloor>log 2 v\<rfloor> = int k"
    using v assms(1,2) by (simp add: floor_log_eq_powr_iff powr_realpow powr_add)
  then have e: "max \<lfloor>log 2 \<bar>v\<bar>\<rfloor> (- 1022) = int k" using v by simp
  have "real_of_int (int k - 52) = - real (52 - k)" using assms(3) by simp
  moreover have "(2::real) powr (- real (52 - k)) = 1 / 2 ^ (52 - k)"
    by (simp add: powr_minus_divide powr_realpow)
  ultimately have u: "(2::real) powr real_of_int (max \<lfloor>log 2 \<bar>v\<bar>\<rfloor> (- 1022) - 52) =
      1 / 2 ^ (52 - k)"
    unfolding e by (simp only:)
  show ?thesis
    using v unfolding double_def Let_def u by simp
qed

lemma double_top1: "double ((1 - 1 / 2 ^ 53) * 26) = 26 - 1 / 2 ^ 48"
proof -
  have "double ((1 - 1 / 2 ^ 53) * 26) =
      of_int (round_even ((1 - 1 / 2 ^ 53) * 26 * 2 ^ (52 - 4))) / 2 ^ (52 - 4)"
    by (rule double_binade) simp_all
  also have "round_even ((1 - 1 / 2 ^ 53) * 26 * 2 ^ (52 - 4)) = 26 * 2 ^ 48 - 1"
    by (simp add: round_even_def Let_def)
  finally show ?thesis by simp
qed

lemma double_top2: "double (26 - 1 / 2 ^ 48 + 18) = 44"
proof -
  have "double (26 - 1 / 2 ^ 48 + 18) =
      of_int (round_even ((26 - 1 / 2 ^ 48 + 18) * 2 ^ (52 - 5))) / 2 ^ (52 - 5)"
    by (rule double_binade) simp_all
  also have "round_even ((26 - 1 / 2 ^ 48 + 18) * 2 ^ (52 - 5)) = 44 * 2 ^ 47"
    by (simp add: round_even_def Let_def)
  finally show ?thesis by simp
qed

lemma double_of_int:
  assumes "0 < m" "m < 2 ^ 53"
  shows "double (of_int m) = of_int m"
proof -
  have "real_of_int m < of_int (2 ^ 53)"
    using assms(2) by (simp only: of_int_less_iff)
  then have "0 < real_of_int m" "real_of_int m < 2 ^ 53"
    using assms(1) by simp_all
  from double_ge [OF this, of m] double_le [OF this, of m] show ?thesis by simp
qed

lemma double_within:
  assumes "of_int lo \<le> v" "v \<le> of_int hi" "0 \<le> lo" "hi < 2 ^ 53"
  shows "of_int lo \<le> double v \<and> double v \<le> of_int hi"
proof (cases "v = 0")
  case True
  with assms show ?thesis by (simp add: double_def)
next
  case False
  with assms(1,3) have pos: "0 < v" by (smt (verit) of_int_nonneg)
  have "real_of_int hi < of_int (2 ^ 53)"
    using assms(4) by (simp only: of_int_less_iff)
  with assms(2) have "v < 2 ^ 53" by simp
  from double_ge [OF pos this assms(1)] double_le [OF pos this assms(2)]
  show ?thesis by simp
qed

lemma double_26: "double (44 - 18) = 26"
  using double_of_int [of 26] by simp

lemma rand_double_radius: "18 \<le> rand_double u 18 44 \<and> rand_double u 18 44 \<le> 44"
proof -
  have "0 \<le> draw_val u * 26" "draw_val u * 26 \<le> 26"
    using draw_val_ge0 [of u] draw_val_less1 [of u] by simp_all
  with double_within [of 0 "draw_val u * 26" 26]
  have "0 \<le> double (draw_val u * 26)" "double (draw_val u * 26) \<le> 26" by simp_all
  with double_within [of 18 "double (draw_val u * 26) + 18" 44]
  have "18 \<le> double (double (draw_val u * 26) + 18) \<and>
        double (double (draw_val u * 26) + 18) \<le> 44" by simp
  then show ?thesis unfolding rand_double_def double_26 .
qed

lemma spawn_radius_bounds: "18 \<le> spawn_radius u \<and> spawn_radius u \<le> 44"
proof -
  from rand_double_radius [of u]
  have "18 \<le> \<lfloor>rand_double u 18 44\<rfloor>" "\<lfloor>rand_double u 18 44\<rfloor> \<le> 44"
    by (simp_all add: le_floor_iff floor_le_iff)
  then show ?thesis by (simp add: spawn_radius_def)
qed

lemma draw_top: "draw_val top_draw = 1 - 1 / 2 ^ 53"
  by (simp add: top_draw_def Draw_inverse)

lemma spawn_radius_top: "spawn_radius top_draw = 44"
proof -
  have "rand_double top_draw 18 44 = 44"
    by (simp only: rand_double_def draw_top double_26 double_top1 double_top2)
  then show ?thesis by (simp add: spawn_radius_def)
qed

lemma update_bullets_take:
  "k \<le> length bs \<Longrightarrow>
   update_bullets dt k bs =
     Some (filter (\<lambda>b. \<not> life b \<le> 0) (map (move_bullet dt) (take k bs)) @ drop k bs)"
proof (induction k arbitrary: bs)
  case 0
  then show ?case by simp
next
  case (Suc i)
  then have i: "i < length bs" by simp
  let ?b = "move_bullet dt (bs ! i)"
  have tk: "take (Suc i) bs = take i bs @ [bs ! i]"
    using i by (simp add: take_Suc_conv_app_nth)
  show ?case
  proof (cases "life ?b \<le> 0")
    case True
    have "update_bullets dt (Suc i) bs = update_bullets dt i (array_splice i 1 (bs[i := ?b]))"
      using i True by (simp add: Let_def)
    also have "array_splice i 1 (bs[i := ?b]) = take i bs @ drop (Suc i) bs"
      by (simp add: array_splice_def)
    also have "update_bullets dt i (take i bs @ drop (Suc i) bs) =
       Some (filter (\<lambda>b. \<not> life b \<le> 0) (map (move_bullet dt) (take i bs)) @ drop (Suc i) bs)"
      using i by (subst Suc.IH) (simp_all add: min_absorb2)
    finally show ?thesis using True by (simp add: tk)
  next
    case False
    have "update_bullets dt (Suc i) bs = update_bullets dt i (bs[i := ?b])"
      using i False by (simp add: Let_def)
    also have "\<dots> = Some (filter (\<lambda>b. \<not> life b \<le> 0) (map (move_bullet dt) (take i bs))
                        @ ?b # drop (Suc i) bs)"
      using i by (subst Suc.IH) (simp_all add: drop_update_swap Cons_nth_drop_Suc [symmetric] upd_conv_take_nth_drop)
    finally show ?thesis using False by (simp add: tk)
  qed
qed

lemma update_asteroids_take:
  "k \<le> length as \<Longrightarrow>
   update_asteroids e dt k as =
     Some (filter (\<lambda>a. \<not> far_outside e a) (map (move_asteroid dt) (take k as)) @ drop k as)"
proof (induction k arbitrary: as)
  case 0
  then show ?case by simp
next
  case (Suc i)
  then have i: "i < length as" by simp
  let ?a = "move_asteroid dt (as ! i)"
  have tk: "take (Suc i) as = take i as @ [as ! i]"
    using i by (simp add: take_Suc_conv_app_nth)
  show ?case
  proof (cases "far_outside e ?a")
    case True
    have "update_asteroids e dt (Suc i) as =
          update_asteroids e dt i (array_splice i 1 (as[i := ?a]))"
      using i True by (simp add: Let_def)
    also have "array_splice i 1 (as[i := ?a]) = take i as @ drop (Suc i) as"
      by (simp add: array_splice_def)
    also have "update_asteroids e dt i (take i as @ drop (Suc i) as) =
       Some (filter (\<lambda>a. \<not> far_outside e a) (map (move_asteroid dt) (take i as))
             @ drop (Suc i) as)"
      using i by (subst Suc.IH) (simp_all add: min_absorb2)
    finally show ?thesis using True by (simp add: tk)
  next
    case False
    have "update_asteroids e dt (Suc i) as = update_asteroids e dt i (as[i := ?a])"
      using i False by (simp add: Let_def)
    also have "\<dots> = Some (filter (\<lambda>a. \<not> far_outside e a) (map (move_asteroid dt) (take i as))
                        @ ?a # drop (Suc i) as)"
      using i by (subst Suc.IH) (simp_all add: upd_conv_take_nth_drop)
    finally show ?thesis using False by (simp add: tk)
  qed
qed

lemma collide_ship_take:
  "k \<le> length (asteroids st) \<Longrightarrow>
   collide_ship s k st =
     Some (st\<lparr>gameOver := gameOver st \<or> (\<exists>a \<in> set (take k (asteroids st)). crashes s a)\<rparr>)"
proof (induction k arbitrary: st)
  case 0
  then show ?case by simp
next
  case (Suc i)
  then have i: "i < length (asteroids st)" by simp
  have tk: "take (Suc i) (asteroids st) = take i (asteroids st) @ [asteroids st ! i]"
    using i by (simp add: take_Suc_conv_app_nth)
  show ?case
  proof (cases "crashes s (asteroids st ! i)")
    case True
    have "collide_ship s (Suc i) st = collide_ship s i (st\<lparr>gameOver := True\<rparr>)"
      using i True by simp
    also have "\<dots> = Some (st\<lparr>gameOver := True\<rparr>)"
      using i by (subst Suc.IH) simp_all
    finally show ?thesis using True by (simp add: tk)
  next
    case False
    have "collide_ship s (Suc i) st = collide_ship s i st"
      using i False by simp
    then show ?thesis using i False by (simp add: Suc.IH tk)
  qed
qed

lemma scan_bullets_cases:
  "k \<le> length (bullets st) \<Longrightarrow>
   scan_bullets e a i k st = Some st \<and> (\<forall>j<k. \<not> touches a (bullets st ! j)) \<or>
   (\<exists>j<k. touches a (bullets st ! j) \<and> (\<forall>j'. j < j' \<and> j' < k \<longrightarrow> \<not> touches a (bullets st ! j')) \<and>
           scan_bullets e a i k st = Some (hit e a i j st))"
proof (induction k)
  case 0
  then show ?case by simp
next
  case (Suc k)
  then have k: "k < length (bullets st)" by simp
  show ?case
  proof (cases "touches a (bullets st ! k)")
    case True
    then have "scan_bullets e a i (Suc k) st = Some (hit e a i k st)"
      using k by simp
    then show ?thesis using True by auto
  next
    case False
    then have eq: "scan_bullets e a i (Suc k) st = scan_bullets e a i k st"
      using k by simp
    from Suc.IH k consider
        (none) "scan_bullets e a i k st = Some st" "\<forall>j<k. \<not> touches a (bullets st ! j)"
      | (some) j where "j < k" "touches a (bullets st ! j)"
          "\<forall>j'. j < j' \<and> j' < k \<longrightarrow> \<not> touches a (bullets st ! j')"
          "scan_bullets e a i k st = Some (hit e a i j st)"
      by auto
    then show ?thesis
    proof cases
      case none
      then show ?thesis using False eq by (auto simp: less_Suc_eq)
    next
      case some
      have "\<forall>j'. j < j' \<and> j' < Suc k \<longrightarrow> \<not> touches a (bullets st ! j')"
        using some(3) False by (auto simp: less_Suc_eq)
      then show ?thesis using some eq by (intro disjI2 exI [of _ j]) simp
    qed
  qed
qed


lemma hit_bullets: "bullets (hit e a i j st) = array_splice j 1 (bullets st)"
  by (simp add: hit_def Let_def)

lemma hit_asteroids:
  "asteroids (hit e a i j st) = array_splice i 1 (asteroids st) @ fragments e (drawn st) a"
  by (simp add: hit_def Let_def)

lemma hit_score: "score (hit e a i j st) = score st + award a"
  by (simp add: hit_def Let_def)

lemma hit_frame:
  "ship (hit e a i j st) = ship st" "gameOver (hit e a i j st) = gameOver st"
  "spawnInterval (hit e a i j st) = spawnInterval st" "lastSpawn (hit e a i j st) = lastSpawn st"
  "lastTime (hit e a i j st) = lastTime st" "shotCooldown (hit e a i j st) = shotCooldown st"
  "clockReads (hit e a i j st) = clockReads st"
  by (simp_all add: hit_def Let_def)

lemma array_splice_length: "i < length xs \<Longrightarrow> Suc (length (array_splice i 1 xs)) = length xs"
  by (simp add: array_splice_def) 

lemma array_splice_subseq: "subseq (array_splice i n xs) xs"
proof -
  have "subseq (take i xs @ drop (i + n) xs) (take i xs @ drop i xs)"
    by (intro list_emb_append_mono subseq_order.order_refl)
       (metis add.commute drop_drop suffix_drop suffix_imp_subseq)
  then show ?thesis by (simp add: array_splice_def)
qed

lemma fragments_radius:
  "f \<in> set (fragments e n a) \<Longrightarrow> 26 < radius a \<and> radius f = radius a * 0.55"
  by (auto simp: fragments_def fragment_def split: if_splits)

lemma fragments_length:
  "length (fragments e n a) = (if 26 < radius a then 2 else 0)"
  by (simp add: fragments_def)

lemma scan_bullets_frame:
  assumes "scan_bullets e a i k st = Some st'"
  shows "ship st' = ship st \<and> gameOver st' = gameOver st \<and> spawnInterval st' = spawnInterval st \<and>
         lastSpawn st' = lastSpawn st \<and> lastTime st' = lastTime st \<and>
         shotCooldown st' = shotCooldown st \<and> clockReads st' = clockReads st"
  using assms by (induction k) (auto simp: hit_frame split: if_splits)

lemma collide_bullets_frame:
  "collide_bullets e k st = Some st' \<Longrightarrow>
   ship st' = ship st \<and> gameOver st' = gameOver st \<and> spawnInterval st' = spawnInterval st \<and>
   lastSpawn st' = lastSpawn st \<and> lastTime st' = lastTime st \<and>
   shotCooldown st' = shotCooldown st \<and> clockReads st' = clockReads st"
proof (induction k arbitrary: st)
  case 0
  then show ?case by simp
next
  case (Suc i)
  from Suc.prems obtain st1 where
    s: "scan_bullets e (asteroids st ! i) i (length (bullets st)) st = Some st1" and
    c: "collide_bullets e i st1 = Some st'"
    by (auto split: if_splits option.splits)
  show ?case using scan_bullets_frame [OF s] Suc.IH [OF c] by simp
qed

lemma collide_bullets_resolution:
  "k \<le> length (asteroids st) \<Longrightarrow>
   \<exists>st' S D F. collide_bullets e k st = Some st' \<and> resolution k st st' S D F"
proof (induction k arbitrary: st)
  case 0
  have "resolution 0 st st [] [] []" by (simp add: resolution_def)
  then show ?case by auto
next
  case (Suc i)
  then have i: "i < length (asteroids st)" by simp
  let ?as = "asteroids st" and ?bs = "bullets st"
  let ?a = "?as ! i"
  have tk: "take (Suc i) ?as = take i ?as @ [?a]"
    using i by (simp add: take_Suc_conv_app_nth)
  have dr: "drop i ?as = ?a # drop (Suc i) ?as"
    using i by (simp add: Cons_nth_drop_Suc)
  from scan_bullets_cases [of "length ?bs" st e ?a i] consider
      (miss) "scan_bullets e ?a i (length ?bs) st = Some st"
    | (strike) j where "j < length ?bs" "scan_bullets e ?a i (length ?bs) st = Some (hit e ?a i j st)"
    by auto
  then show ?case
  proof cases
    case miss
    from Suc.IH [of st] i obtain st' S D F where
      c: "collide_bullets e i st = Some st'" and r: "resolution i st st' S D F"
      by auto
    have "collide_bullets e (Suc i) st = Some st'"
      using i miss c by simp
    moreover have "resolution (Suc i) st st' (S @ [?a]) D F"
      using r unfolding resolution_def by (auto simp: tk dr intro: list_emb_append_mono)
    ultimately show ?thesis by blast
  next
    case strike
    let ?st1 = "hit e ?a i j st"
    let ?fr = "fragments e (drawn st) ?a"
    have as1: "asteroids ?st1 = take i ?as @ drop (Suc i) ?as @ ?fr"
      by (simp add: hit_asteroids array_splice_def)
    have len1: "i \<le> length (asteroids ?st1)"
      using i by (simp add: as1)
    have tk1: "take i (asteroids ?st1) = take i ?as"
      using i by (simp add: as1)
    have dr1: "drop i (asteroids ?st1) = drop (Suc i) ?as @ ?fr"
      using i by (simp add: as1)
    from Suc.IH [OF len1] obtain st' S D F where
      c: "collide_bullets e i ?st1 = Some st'" and r: "resolution i ?st1 st' S D F"
      by auto
    have run: "collide_bullets e (Suc i) st = Some st'"
      using i strike c by simp
    have sub: "subseq (bullets st') ?bs"
      using r array_splice_subseq [of j 1 ?bs]
      unfolding resolution_def hit_bullets by (metis subseq_order.order_trans)
    have lenb: "length (bullets st') + length (?a # D) = length ?bs"
      using r array_splice_length [OF strike(1)]
      unfolding resolution_def hit_bullets by simp
    have frs: "\<forall>f \<in> set (?fr @ F). \<exists>a \<in> set (?a # D). 26 < radius a \<and> radius f = radius a * 0.55"
      using r fragments_radius [of _ e "drawn st" ?a]
      unfolding resolution_def by auto
    have lenf: "length (?fr @ F) = 2 * length (filter (\<lambda>a. 26 < radius a) (?a # D))"
      using r unfolding resolution_def by (simp add: fragments_length)
    have "resolution (Suc i) st st' S (?a # D) (?fr @ F)"
      unfolding resolution_def
    proof (intro conjI)
      show "asteroids st' = S @ drop (Suc i) ?as @ ?fr @ F"
        using r unfolding resolution_def by (simp add: dr1)
      show "subseq S (take (Suc i) ?as)"
        using r unfolding resolution_def tk1 tk by (simp add: list_emb_append2 [of _ _ _ "[]", simplified] subseq_rev_drop_many)
      show "set (?a # D) \<subseteq> set (take (Suc i) ?as)"
        using r unfolding resolution_def tk1 tk by auto
      show "length S + length (?a # D) = Suc i"
        using r unfolding resolution_def by simp
      show "score st' = score st + sum_list (map award (?a # D))"
        using r unfolding resolution_def by (simp add: hit_score)
    qed (use sub lenb frs lenf in simp_all)
    with run show ?thesis by blast
  qed
qed


lemma update_bullets_all: "update_bullets dt (length bs) bs = Some (alive dt bs)"
  by (simp add: update_bullets_take alive_def)

lemma update_asteroids_all: "update_asteroids e dt (length as) as = Some (drifting e dt as)"
  by (simp add: update_asteroids_take drifting_def)

lemma collide_ship_all:
  "collide_ship s (length (asteroids st)) st =
     Some (st\<lparr>gameOver := gameOver st \<or> (\<exists>a \<in> set (asteroids st). crashes s a)\<rparr>)"
  by (simp add: collide_ship_take)

lemma fire_Some:
  assumes "ship st = Some s"
  shows "\<exists>st'. fire e st = Some st' \<and> ship st' = ship st \<and> asteroids st' = asteroids st \<and>
           score st' = score st \<and> gameOver st' = gameOver st \<and>
           spawnInterval st' = spawnInterval st \<and> lastSpawn st' = lastSpawn st \<and>
           lastTime st' = lastTime st \<and> drawn st' = drawn st"
  using assms unfolding fire_def
  by (simp add: shoot_def tick_clock_def Let_def split: option.split)

lemma finish_frame:
  "ship (finish s st) = ship st" "bullets (finish s st) = bullets st"
  "asteroids (finish s st) = asteroids st" "score (finish s st) = score st"
  "spawnInterval (finish s st) = spawnInterval st" "lastSpawn (finish s st) = lastSpawn st"
  "lastTime (finish s st) = lastTime st" "shotCooldown (finish s st) = shotCooldown st"
  by (simp_all add: finish_def)

lemma step_unfold:
  assumes "ship st = Some s0"
    and "fire e (st\<lparr>ship := Some (controls e dt s0)\<rparr>) = Some st2"
    and "collide_bullets e (length (asteroids (before_collisions e dt (controls e dt s0) st2)))
           (before_collisions e dt (controls e dt s0) st2) = Some st6"
  shows "step e dt st = Some (finish (moved e dt s0) st6)"
  using assms
  by (simp add: step_def after_controls_def Let_def update_bullets_all update_asteroids_all
      collide_ship_all before_collisions_def finish_def moved_def)

lemma step_hub:
  assumes "ship st = Some s0"
  shows "\<exists>st2 st6 S D F.
    fire e (st\<lparr>ship := Some (controls e dt s0)\<rparr>) = Some st2 \<and>
    collide_bullets e (length (asteroids (before_collisions e dt (controls e dt s0) st2)))
           (before_collisions e dt (controls e dt s0) st2) = Some st6 \<and>
    resolution (length (asteroids (before_collisions e dt (controls e dt s0) st2)))
           (before_collisions e dt (controls e dt s0) st2) st6 S D F \<and>
    step e dt st = Some (finish (moved e dt s0) st6)"
proof -
  have "ship (st\<lparr>ship := Some (controls e dt s0)\<rparr>) = Some (controls e dt s0)" by simp
  from fire_Some [OF this, of e] obtain st2 where
    f: "fire e (st\<lparr>ship := Some (controls e dt s0)\<rparr>) = Some st2" by blast
  let ?pre = "before_collisions e dt (controls e dt s0) st2"
  from collide_bullets_resolution [of "length (asteroids ?pre)" ?pre e]
  obtain st6 S D F where
    c: "collide_bullets e (length (asteroids ?pre)) ?pre = Some st6" and
    r: "resolution (length (asteroids ?pre)) ?pre st6 S D F" by auto
  from f c r step_unfold [OF assms f c] show ?thesis by blast
qed

lemma step_total: "\<exists>st'. step e dt st = Some st'"
proof (cases "ship st")
  case None
  then show ?thesis by (simp add: step_def)
next
  case (Some s0)
  from step_hub [OF Some, of e dt] show ?thesis by blast
qed


lemma spawnAsteroid_asteroids:
  "\<exists>a. asteroids (spawnAsteroid e st) = asteroids st @ [a] \<and> 18 \<le> radius a \<and> radius a \<le> 44"
proof -
  have "18 \<le> real_of_int (spawn_radius u) \<and> real_of_int (spawn_radius u) \<le> 44" for u
    using spawn_radius_bounds [of u] by (metis of_int_le_iff of_int_numeral)
  then show ?thesis
    by (simp add: spawnAsteroid_def Let_def split_beta)
qed

lemma spawnAsteroid_frame:
  "ship (spawnAsteroid e st) = ship st" "bullets (spawnAsteroid e st) = bullets st"
  "score (spawnAsteroid e st) = score st" "gameOver (spawnAsteroid e st) = gameOver st"
  "spawnInterval (spawnAsteroid e st) = spawnInterval st"
  "lastSpawn (spawnAsteroid e st) = lastSpawn st" "lastTime (spawnAsteroid e st) = lastTime st"
  "shotCooldown (spawnAsteroid e st) = shotCooldown st"
  "clockReads (spawnAsteroid e st) = clockReads st"
  by (simp_all add: spawnAsteroid_def Let_def split_beta)

lemma spawn_tick_frame:
  "ship (spawn_tick e st) = ship st" "bullets (spawn_tick e st) = bullets st"
  "score (spawn_tick e st) = score st" "gameOver (spawn_tick e st) = gameOver st"
  "lastTime (spawn_tick e st) = lastTime st" "shotCooldown (spawn_tick e st) = shotCooldown st"
  by (simp_all add: spawn_tick_def Let_def tick_clock_def spawnAsteroid_frame)

lemma spawn_tick_asteroids:
  "asteroids (spawn_tick e st) = asteroids st \<or>
   (\<exists>a. asteroids (spawn_tick e st) = asteroids st @ [a] \<and> 18 \<le> radius a \<and> radius a \<le> 44)"
proof -
  from spawnAsteroid_asteroids [of e "tick_clock st"]
  show ?thesis by (auto simp: spawn_tick_def Let_def tick_clock_def)
qed

lemma spawn_tick_interval:
  "spawnInterval (spawn_tick e st) =
     (if clock e st - lastSpawn st > spawnInterval st then max 500 (spawnInterval st * 0.98)
      else spawnInterval st)"
  by (simp add: spawn_tick_def Let_def tick_clock_def spawnAsteroid_frame)

lemma drifting_radius:
  "a \<in> set (drifting e dt as) \<Longrightarrow> \<exists>a0 \<in> set as. radius a = radius a0"
  by (auto simp: drifting_def move_asteroid_def Let_def)

lemma physics_frame:
  "bullets (physics e dt s d st) = bullets st" "asteroids (physics e dt s d st) = asteroids st"
  "score (physics e dt s d st) = score st" "gameOver (physics e dt s d st) = gameOver st"
  "spawnInterval (physics e dt s d st) = spawnInterval st"
  "lastSpawn (physics e dt s d st) = lastSpawn st" "clockReads (physics e dt s d st) = clockReads st"
  by (simp_all add: physics_def)

lemma before_collisions_score:
  "\<not> restarts e st2 \<Longrightarrow> score (before_collisions e dt s1 st2) = score st2"
  by (simp add: before_collisions_def Let_def spawn_tick_frame physics_frame after_restart_def)

lemma after_restart_asteroids:
  "set (asteroids (after_restart e st)) \<subseteq> set (asteroids st)"
  by (simp add: after_restart_def reset_def tick_clock_def)

lemma before_collisions_radii:
  assumes "radii_below r st2" "44 \<le> r"
  shows "radii_below r (before_collisions e dt s1 st2)"
proof -
  let ?st4 = "physics e dt s1 (restarts e st2) (after_restart e st2)"
  let ?st4' = "?st4\<lparr>bullets := alive dt (bullets ?st4)\<rparr>"
  have r4: "\<forall>a \<in> set (asteroids ?st4'). radius a \<le> r"
    using assms(1) after_restart_asteroids [of e st2]
    by (auto simp: radii_below_def physics_frame)
  have "\<forall>a \<in> set (asteroids (spawn_tick e ?st4')). radius a \<le> r"
    using spawn_tick_asteroids [of e ?st4'] r4 assms(2) by auto
  then have "\<forall>a \<in> set (drifting e dt (asteroids (spawn_tick e ?st4'))). radius a \<le> r"
    using drifting_radius by metis
  then show ?thesis
    by (simp add: radii_below_def before_collisions_def Let_def)
qed

lemma resolution_radii:
  assumes "resolution (length (asteroids st)) st st' S D F" "radii_below r st"
  shows "radii_below r st'"
proof -
  have S: "set S \<subseteq> set (asteroids st)"
    using assms(1) list_emb_set [of "(=)" S "asteroids st"] set_take_subset [of "length (asteroids st)" "asteroids st"]
    unfolding resolution_def by auto
  have D: "set D \<subseteq> set (asteroids st)"
    using assms(1) unfolding resolution_def by simp
  have "radius f \<le> r" if "f \<in> set F" for f
  proof -
    from assms(1) that obtain a where a: "a \<in> set D" "26 < radius a" "radius f = radius a * 0.55"
      unfolding resolution_def by blast
    then have "radius a \<le> r" using D assms(2) by (auto simp: radii_below_def)
    with a show ?thesis by simp
  qed
  moreover have "asteroids st' = S @ F"
    using assms(1) unfolding resolution_def by simp
  ultimately show ?thesis
    using S assms(2) by (auto simp: radii_below_def)
qed

lemma resolution_score:
  assumes "resolution (length (asteroids st)) st st' S D F" "radii_below 100 st"
  shows "score st \<le> score st'"
proof -
  have "0 \<le> award a" if "a \<in> set D" for a
  proof -
    have "a \<in> set (asteroids st)" using assms(1) that unfolding resolution_def by auto
    then have "radius a \<le> 100" using assms(2) by (simp add: radii_below_def)
    then show ?thesis by (simp add: award_def)
  qed
  then have "0 \<le> sum_list (map award D)"
    by (intro sum_list_nonneg) auto
  then show ?thesis using assms(1) unfolding resolution_def by simp
qed

lemma restarts_fire:
  "fire e st = Some st2 \<Longrightarrow> restarts e st2 = restarts e st"
  by (auto simp: fire_def restarts_def shoot_def tick_clock_def Let_def
      split: if_splits option.splits)

lemma fire_asteroids:
  "fire e st = Some st2 \<Longrightarrow> asteroids st2 = asteroids st \<and> score st2 = score st"
  by (auto simp: fire_def shoot_def tick_clock_def Let_def split: if_splits option.splits)

lemma step_radii:
  assumes "radii_below r st" "44 \<le> r" "step e dt st = Some st'"
  shows "radii_below r st'"
proof (cases "ship st")
  case None
  then show ?thesis using assms by (simp add: step_def)
next
  case (Some s0)
  from step_hub [OF Some, of e dt] obtain st2 st6 S D F where
    f: "fire e (st\<lparr>ship := Some (controls e dt s0)\<rparr>) = Some st2" and
    r: "resolution (length (asteroids (before_collisions e dt (controls e dt s0) st2)))
           (before_collisions e dt (controls e dt s0) st2) st6 S D F" and
    s: "step e dt st = Some (finish (moved e dt s0) st6)"
    by blast
  have st': "st' = finish (moved e dt s0) st6"
    using s assms(3) by simp
  have "radii_below r st2"
    using fire_asteroids [OF f] assms(1) by (simp add: radii_below_def)
  from resolution_radii [OF r before_collisions_radii [OF this assms(2)]]
  show ?thesis by (simp add: radii_below_def st' finish_frame)
qed

lemma step_score:
  assumes "radii_below 100 st" "\<not> restarts e st" "step e dt st = Some st'"
  shows "score st \<le> score st'"
proof (cases "ship st")
  case None
  then show ?thesis using assms by (simp add: step_def)
next
  case (Some s0)
  from step_hub [OF Some, of e dt] obtain st2 st6 S D F where
    f: "fire e (st\<lparr>ship := Some (controls e dt s0)\<rparr>) = Some st2" and
    r: "resolution (length (asteroids (before_collisions e dt (controls e dt s0) st2)))
           (before_collisions e dt (controls e dt s0) st2) st6 S D F" and
    s: "step e dt st = Some (finish (moved e dt s0) st6)"
    by blast
  have st': "st' = finish (moved e dt s0) st6"
    using s assms(3) by simp
  have nr: "\<not> restarts e st2"
    using restarts_fire [OF f] assms(2) by (simp add: restarts_def)
  have "radii_below 100 st2"
    using fire_asteroids [OF f] assms(1) by (simp add: radii_below_def)
  then have "radii_below 100 (before_collisions e dt (controls e dt s0) st2)"
    by (rule before_collisions_radii) simp
  from resolution_score [OF r this] before_collisions_score [OF nr, of dt "controls e dt s0"]
    fire_asteroids [OF f]
  show ?thesis by (simp add: st' finish_frame)
qed

lemma run_score:
  "radii_below 100 st \<Longrightarrow> no_restart es st \<Longrightarrow>
   \<exists>st'. run es st = Some st' \<and> score st \<le> score st' \<and> radii_below 100 st'"
proof (induction es arbitrary: st)
  case Nil
  then show ?case by simp
next
  case (Cons p es)
  obtain e dt where p: "p = (e, dt)" by (cases p)
  from step_total [of e dt st] obtain st1 where s1: "step e dt st = Some st1" by blast
  have nr: "\<not> restarts e st" and rest: "no_restart es st1"
    using Cons.prems(2) by (simp_all add: p s1)
  have "radii_below 100 st1"
    using step_radii [OF Cons.prems(1) _ s1] by simp
  from Cons.IH [OF this rest] obtain st' where
    "run es st1 = Some st'" "score st1 \<le> score st'" "radii_below 100 st'" by blast
  with step_score [OF Cons.prems(1) nr s1] show ?case
    by (auto simp: p s1)
qed

lemma hypot_same_x: "hypot 0 b = \<bar>b\<bar>"
  by (simp add: hypot_def)

lemma hypot_same_y: "hypot a 0 = \<bar>a\<bar>"
  by (simp add: hypot_def)

lemma draw_half: "draw_val (Draw (1 / 2)) = 1 / 2"
  by (simp add: Draw_inverse)

lemma spawn_radius_half: "spawn_radius (Draw (1 / 2)) = 31"
proof -
  have "double (1 / 2 * 26) = 13" "double (13 + 18) = 31"
    using double_of_int [of 13] double_of_int [of 31] by simp_all
  then have "rand_double (Draw (1 / 2)) 18 44 = 31"
    by (simp only: rand_double_def draw_half double_26)
  then show ?thesis by (simp add: spawn_radius_def)
qed

lemmas eval_defs = step_def after_controls_def controls_def fire_def after_restart_def
  restarts_def physics_def integrate_def wrap_def move_bullet_def spawn_tick_def clock_def
  tick_clock_def move_asteroid_def far_outside_def touches_def crashes_def hit_def
  array_splice_def fragments_def fragment_def rand_def award_def
  hypot_same_x hypot_same_y draw_half Let_def


section \<open>Score\<close>

text \<open>
  Claim C4. Across any sequence of calls of \<open>step\<close> in which line 161 does not call \<open>reset\<close>,
  the score does not decrease; a hit of a bullet on an asteroid adds exactly
  \<open>Math.floor(100 - a.radius)\<close>, which is 70 for an asteroid of radius 30. The sequence starts
  in a state whose asteroids have a radius of at most 100, which every asteroid that
  \<open>spawnAsteroid\<close> or a fragmentation creates has.
\<close>

theorem score_nondecreasing_and_award:
  "(radii_below 100 st \<and> no_restart es st \<longrightarrow>
      (\<exists>st'. run es st = Some st' \<and> score st \<le> score st')) \<and>
   score (hit e a i j st) = score st + \<lfloor>100 - radius a\<rfloor> \<and>
   (radius a = 30 \<longrightarrow> score (hit e a i j st) = score st + 70)"
proof (intro conjI impI)
  assume "radii_below 100 st \<and> no_restart es st"
  then show "\<exists>st'. run es st = Some st' \<and> score st \<le> score st'"
    using run_score [of st es] by blast
next
  show "score (hit e a i j st) = score st + \<lfloor>100 - radius a\<rfloor>"
    by (simp add: hit_score award_def)
next
  assume "radius a = 30"
  then show "score (hit e a i j st) = score st + 70"
    by (simp add: hit_score award_def)
qed

theorem score_nondecreasing_and_award_witness:
  "radii_below 100 (arena [rock 30] [shot]) \<and>
   no_restart [(quiet, 16), (quiet, 16)] (arena [rock 30] [shot]) \<and>
   (\<exists>st'. run [(quiet, 16), (quiet, 16)] (arena [rock 30] [shot]) = Some st' \<and>
      score (arena [rock 30] [shot]) \<le> score st') \<and>
   map_option score (run [(quiet, 16), (quiet, 16)] (arena [rock 30] [shot])) = Some 70 \<and>
   score (hit quiet (rock 30) 0 0 (arena [rock 30] [shot])) = 70"
proof -
  have s1: "step quiet 16 (arena [rock 30] [shot]) =
      Some ((arena [fragment quiet 0 (rock 30), fragment quiet 6 (rock 30)] [])
              \<lparr>score := 70, drawn := 12, clockReads := 1\<rparr>)"
    by (simp add: quiet_def rock_def shot_def pilot_def arena_def eval_defs)
  have s2: "map_option score (step quiet 16
      ((arena [fragment quiet 0 (rock 30), fragment quiet 6 (rock 30)] [])
              \<lparr>score := 70, drawn := 12, clockReads := 1\<rparr>)) = Some 70"
    by (simp add: quiet_def rock_def shot_def pilot_def arena_def eval_defs)
  have h1: "radii_below 100 (arena [rock 30] [shot])"
    by (simp add: radii_below_def arena_def rock_def)
  have h2: "no_restart [(quiet, 16), (quiet, 16)] (arena [rock 30] [shot])"
    using s2 by (auto simp: s1 restarts_def quiet_def split: option.splits)
  have r: "map_option score (run [(quiet, 16), (quiet, 16)] (arena [rock 30] [shot])) = Some 70"
    using s2 by (auto simp: s1 split: option.splits)
  have a: "radius (rock 30) = 30"
    by (simp add: rock_def)
  note inst = score_nondecreasing_and_award
         [of "arena [rock 30] [shot]" "[(quiet, 16), (quiet, 16)]" quiet "rock 30" 0 0]
  from inst h1 h2 have m: "\<exists>st'. run [(quiet, 16), (quiet, 16)] (arena [rock 30] [shot]) = Some st' \<and>
      score (arena [rock 30] [shot]) \<le> score st'"
    by blast
  from inst a have "score (hit quiet (rock 30) 0 0 (arena [rock 30] [shot])) = 70"
    by (simp add: arena_def)
  with h1 h2 r m show ?thesis by simp
qed

section \<open>The Driver\<close>

lemma loop_gameOver: "gameOver st \<Longrightarrow> loop e now st = Some (st\<lparr>lastTime := now\<rparr>)"
  by (simp add: loop_def Let_def)

lemma loop_running:
  "\<not> gameOver st \<Longrightarrow> loop e now st = step e (frame_dt now st) (st\<lparr>lastTime := now\<rparr>)"
  by (simp add: loop_def Let_def)

lemma frames_gameOver:
  "gameOver st \<Longrightarrow>
   \<exists>st'. frames fs st = Some st' \<and> ship st' = ship st \<and> bullets st' = bullets st \<and>
         asteroids st' = asteroids st \<and> score st' = score st \<and> gameOver st'"
proof (induction fs arbitrary: st)
  case Nil
  then show ?case by simp
next
  case (Cons f fs)
  obtain e now where f: "f = (e, now)" by (cases f)
  have "gameOver (st\<lparr>lastTime := now\<rparr>)" using Cons.prems by simp
  from Cons.IH [OF this] show ?case
    using Cons.prems by (simp add: f loop_gameOver)
qed

text \<open>
  Claim C1. The program calls \<open>step\<close> at one place, line 345 of \<open>loop\<close>, and not while
  \<open>gameOver\<close> holds. So from a state with \<open>gameOver\<close>, the animation frames that follow, in
  which \<open>reset\<close> is not called, leave the ship, the bullets, the asteroids and the score as
  they are: no physics, no spawning and no collisions.
\<close>

theorem game_over_latch:
  "gameOver st \<longrightarrow>
     (\<exists>st'. frames fs st = Some st' \<and> ship st' = ship st \<and> bullets st' = bullets st \<and>
         asteroids st' = asteroids st \<and> score st' = score st)"
  using frames_gameOver [of st fs] by blast

theorem game_over_latch_witness:
  "gameOver wreck \<and>
   (\<exists>st'. frames [(quiet, 16), (quiet, 32)] wreck = Some st' \<and>
      ship st' = ship wreck \<and> bullets st' = bullets wreck \<and>
      asteroids st' = asteroids wreck \<and> score st' = score wreck) \<and>
   map_option score (frames [(quiet, 16), (quiet, 32)] wreck) = Some 0 \<and>
   map_option (length \<circ> asteroids) (frames [(quiet, 16), (quiet, 32)] wreck) = Some 1"
proof -
  have g: "gameOver wreck" by (simp add: wreck_def)
  have "frames [(quiet, 16), (quiet, 32)] wreck = Some (wreck\<lparr>lastTime := 32\<rparr>)"
    using g by (simp add: loop_gameOver)
  then have v: "map_option score (frames [(quiet, 16), (quiet, 32)] wreck) = Some 0"
    "map_option (length \<circ> asteroids) (frames [(quiet, 16), (quiet, 32)] wreck) = Some 1"
    by (simp_all add: wreck_def arena_def)
  from game_over_latch [of wreck "[(quiet, 16), (quiet, 32)]"] g v show ?thesis
    by blast
qed

text \<open>
  Claim C2. Line 161 of \<open>step\<close> does call \<open>reset\<close> when R is held in a state with
  \<open>gameOver\<close>, but \<open>loop\<close> is the only caller of \<open>step\<close> and skips it in exactly those states:
  with R held, frame after frame, the flag stays set.
\<close>

theorem restart_never_reached:
  "gameOver wreck \<and> keys (holding ''KeyR'') ''KeyR'' \<and>
   map_option gameOver (step (holding ''KeyR'') 16 wreck) = Some False \<and>
   loop (holding ''KeyR'') 16 wreck = Some (wreck\<lparr>lastTime := 16\<rparr>) \<and>
   map_option gameOver (frames [(holding ''KeyR'', 16), (holding ''KeyR'', 32)] wreck) = Some True"
proof -
  have g: "gameOver wreck" by (simp add: wreck_def)
  have "map_option gameOver (step (holding ''KeyR'') 16 wreck) = Some False"
    by (simp add: holding_def wreck_def quiet_def rock_def shot_def pilot_def arena_def
        reset_def SPAWN_INTERVAL_BASE_def eval_defs)
  moreover have "frames [(holding ''KeyR'', 16), (holding ''KeyR'', 32)] wreck =
      Some (wreck\<lparr>lastTime := 32\<rparr>)"
    using g by (simp add: loop_gameOver)
  ultimately show ?thesis
    using g by (simp add: loop_gameOver holding_def)
qed

text \<open>
  Claim C3, as the code has it. The \<open>dt\<close> that \<open>loop\<close> passes to \<open>step\<close> is
  \<open>Math.min(40, now - state.lastTime)\<close>: at most 40, with no lower bound. It is the
  specification's \<open>clamp(now - lastTime, 0, 40)\<close>, and not negative, when the time stamp is
  not before \<open>lastTime\<close>.
\<close>

theorem frame_dt_upper_bound:
  "loop e now st = (if gameOver st then Some (st\<lparr>lastTime := now\<rparr>)
                     else step e (frame_dt now st) (st\<lparr>lastTime := now\<rparr>)) \<and>
   frame_dt now st = min 40 (now - lastTime st) \<and>
   frame_dt now st \<le> 40 \<and>
   (lastTime st \<le> now \<longrightarrow> frame_dt now st = clamp (now - lastTime st) 0 40 \<and> 0 \<le> frame_dt now st)"
  by (simp add: loop_gameOver loop_running frame_dt_def clamp_def)

theorem frame_dt_upper_bound_witness:
  "lastTime veteran \<le> 5016 \<and> frame_dt 5016 veteran = clamp (5016 - lastTime veteran) 0 40 \<and>
   frame_dt 5016 veteran = 16 \<and> frame_dt 9000 veteran = 40"
proof -
  have h: "lastTime veteran \<le> 5016" by (simp add: veteran_def)
  have "frame_dt 5016 veteran = 16" "frame_dt 9000 veteran = 40"
    by (simp_all add: frame_dt_def veteran_def)
  with h frame_dt_upper_bound [of quiet 5016 veteran] show ?thesis by simp
qed

theorem frame_dt_negative_counterexample:
  "frame_dt 4990 veteran = - 10 \<and> clamp (4990 - lastTime veteran) 0 40 = 0 \<and>
   frame_dt 4990 veteran \<noteq> clamp (4990 - lastTime veteran) 0 40 \<and> frame_dt 4990 veteran < 0"
  by (simp add: frame_dt_def clamp_def veteran_def)

section \<open>reset\<close>

text \<open>
  Claim C8, as the code has it. \<open>reset\<close> stores a new ship at the centre of the canvas,
  empties both collections, sets the score to 0, the spawn interval to the base value
  (or to 500 with the fast toggle), clears \<open>gameOver\<close> and stores the clock in \<open>lastSpawn\<close>.
  It assigns neither \<open>lastTime\<close> nor \<open>_shotCooldown\<close>: both keep their values.
\<close>

theorem reset_postconditions:
  "ship (reset e st) =
     Some \<lparr>x = real (clientWidth e) / 2, y = real (clientHeight e) / 2, vx = 0, vy = 0,
           radius = 14, angle = - pi / 2, thrust = 0\<rparr> \<and>
   bullets (reset e st) = [] \<and> asteroids (reset e st) = [] \<and> score (reset e st) = 0 \<and>
   spawnInterval (reset e st) = (if spawnFastToggle e then 500 else 1200) \<and>
   \<not> gameOver (reset e st) \<and>
   lastSpawn (reset e st) = performance_now e (clockReads st) \<and>
   lastTime (reset e st) = lastTime st \<and>
   shotCooldown (reset e st) = shotCooldown st"
  by (simp add: reset_def tick_clock_def clock_def SPAWN_INTERVAL_BASE_def)

theorem reset_keeps_shot_time_counterexample:
  "shotCooldown veteran = Some 4900 \<and> shotCooldown (reset quiet veteran) = Some 4900 \<and>
   shotCooldown (reset quiet veteran) \<noteq> None \<and>
   lastTime (reset quiet veteran) = 5000"
  by (simp add: reset_def tick_clock_def veteran_def arena_def)

section \<open>The ship stays inside the margins\<close>

lemma wrap_x:
  "x (wrap e s) =
     (if x s < - 50 then real (clientWidth e) + 50
      else if real (clientWidth e) + 50 < x s then - 50 else x s)"
  by (simp add: wrap_def Let_def)

lemma wrap_y:
  "y (wrap e s) =
     (if y s < - 50 then real (clientHeight e) + 50
      else if real (clientHeight e) + 50 < y s then - 50 else y s)"
  by (simp add: wrap_def Let_def)

lemma wrap_inside:
  "- 50 \<le> x (wrap e s) \<and> x (wrap e s) \<le> real (clientWidth e) + 50 \<and>
   - 50 \<le> y (wrap e s) \<and> y (wrap e s) \<le> real (clientHeight e) + 50"
  by (simp add: wrap_x wrap_y)

lemma before_collisions_ship:
  "ship (before_collisions e dt s1 st2) =
     (if restarts e st2 then ship (reset e st2) else Some (wrap e (integrate dt s1)))"
  by (simp add: before_collisions_def Let_def spawn_tick_frame physics_def after_restart_def)

lemma step_ship:
  assumes "ship st = Some s0" "step e dt st = Some st'"
  shows "\<exists>st2. ship st' = (if restarts e st then ship (reset e st2) else Some (moved e dt s0))"
proof -
  from step_hub [OF assms(1), of e dt] obtain st2 st6 S D F where
    f: "fire e (st\<lparr>ship := Some (controls e dt s0)\<rparr>) = Some st2" and
    c: "collide_bullets e (length (asteroids (before_collisions e dt (controls e dt s0) st2)))
           (before_collisions e dt (controls e dt s0) st2) = Some st6" and
    s: "step e dt st = Some (finish (moved e dt s0) st6)"
    by blast
  have st': "st' = finish (moved e dt s0) st6"
    using s assms(2) by simp
  have "restarts e st2 = restarts e st"
    using restarts_fire [OF f] by (simp add: restarts_def)
  then have "ship st' = (if restarts e st then ship (reset e st2) else Some (moved e dt s0))"
    using collide_bullets_frame [OF c]
    by (simp add: st' finish_frame before_collisions_ship moved_def)
  then show ?thesis by blast
qed

lemma reset_ship_inside:
  "\<exists>s'. ship (reset e st) = Some s' \<and>
     - 50 \<le> x s' \<and> x s' \<le> real (clientWidth e) + 50 \<and>
     - 50 \<le> y s' \<and> y s' \<le> real (clientHeight e) + 50"
  by (simp add: reset_def tick_clock_def)

text \<open>
  Claim C7. After a call of \<open>step\<close> with a ship, for every time step \<open>dt\<close> (so for those
  between 0 and 40), the ship of the state lies within 50 units of the canvas on both
  axes. Unless line 161 has replaced it by the centred ship of \<open>reset\<close>, it is the
  integrated ship after the four wrap statements, which move a coordinate below \<open>-50\<close> to
  the opposite margin, one above the opposite margin to \<open>-50\<close>, and leave any other as it
  is: no coordinate is moved twice.
\<close>

theorem ship_wrap_invariant:
  "(ship st = Some s \<longrightarrow>
      (\<exists>st' s'. step e dt st = Some st' \<and> ship st' = Some s' \<and>
         - 50 \<le> x s' \<and> x s' \<le> real (clientWidth e) + 50 \<and>
         - 50 \<le> y s' \<and> y s' \<le> real (clientHeight e) + 50 \<and>
         (\<not> restarts e st \<longrightarrow> s' = wrap e (integrate dt (controls e dt s))))) \<and>
   x (wrap e p) = (if x p < - 50 then real (clientWidth e) + 50
                   else if real (clientWidth e) + 50 < x p then - 50 else x p) \<and>
   y (wrap e p) = (if y p < - 50 then real (clientHeight e) + 50
                   else if real (clientHeight e) + 50 < y p then - 50 else y p)"
proof (intro conjI impI)
  assume s: "ship st = Some s"
  from step_total [of e dt st] obtain st' where st': "step e dt st = Some st'" by blast
  from step_ship [OF s st'] obtain st2 where
    sh: "ship st' = (if restarts e st then ship (reset e st2) else Some (moved e dt s))"
    by blast
  show "\<exists>st' s'. step e dt st = Some st' \<and> ship st' = Some s' \<and>
         - 50 \<le> x s' \<and> x s' \<le> real (clientWidth e) + 50 \<and>
         - 50 \<le> y s' \<and> y s' \<le> real (clientHeight e) + 50 \<and>
         (\<not> restarts e st \<longrightarrow> s' = wrap e (integrate dt (controls e dt s)))"
  proof (cases "restarts e st")
    case True
    from reset_ship_inside [of e st2] obtain s' where
      "ship (reset e st2) = Some s'" "- 50 \<le> x s'" "x s' \<le> real (clientWidth e) + 50"
      "- 50 \<le> y s'" "y s' \<le> real (clientHeight e) + 50"
      by blast
    with True st' sh show ?thesis by auto
  next
    case False
    with sh have "ship st' = Some (wrap e (integrate dt (controls e dt s)))"
      by (simp add: moved_def)
    with st' wrap_inside [of e "integrate dt (controls e dt s)"] show ?thesis by blast
  qed
qed (rule wrap_x wrap_y)+

theorem ship_wrap_invariant_witness:
  "ship drifter = Some (pilot\<lparr>x := - 49, vx := - 1\<rparr>) \<and> \<not> restarts quiet drifter \<and>
   x (integrate 16 (controls quiet 16 (pilot\<lparr>x := - 49, vx := - 1\<rparr>))) < - 50 \<and>
   (\<exists>st' s'. step quiet 16 drifter = Some st' \<and> ship st' = Some s' \<and>
      x s' = 850 \<and> y s' = 300 \<and> - 50 \<le> x s' \<and> x s' \<le> real (clientWidth quiet) + 50)"
proof -
  have h: "ship drifter = Some (pilot\<lparr>x := - 49, vx := - 1\<rparr>)"
    by (simp add: drifter_def)
  have n: "\<not> restarts quiet drifter"
    by (simp add: restarts_def quiet_def)
  have i: "x (integrate 16 (controls quiet 16 (pilot\<lparr>x := - 49, vx := - 1\<rparr>))) < - 50"
    by (simp add: integrate_def controls_def quiet_def pilot_def Let_def)
  have w: "x (wrap quiet (integrate 16 (controls quiet 16 (pilot\<lparr>x := - 49, vx := - 1\<rparr>)))) = 850"
          "y (wrap quiet (integrate 16 (controls quiet 16 (pilot\<lparr>x := - 49, vx := - 1\<rparr>)))) = 300"
    by (simp_all add: wrap_def integrate_def controls_def quiet_def pilot_def Let_def)
  from ship_wrap_invariant [of drifter "pilot\<lparr>x := - 49, vx := - 1\<rparr>" quiet 16] h n
  obtain st' s' where "step quiet 16 drifter = Some st'" "ship st' = Some s'"
    "- 50 \<le> x s'" "x s' \<le> real (clientWidth quiet) + 50"
    "s' = wrap quiet (integrate 16 (controls quiet 16 (pilot\<lparr>x := - 49, vx := - 1\<rparr>)))"
    by blast
  with h n i w show ?thesis by auto
qed

section \<open>The spawn interval\<close>

lemma fire_interval: "fire e st = Some st2 \<Longrightarrow> spawnInterval st2 = spawnInterval st"
  by (auto simp: fire_def shoot_def tick_clock_def Let_def split: if_splits option.splits)

lemma before_collisions_interval:
  "spawnInterval (before_collisions e dt s1 st2) = spawnInterval st2 \<or>
   spawnInterval (before_collisions e dt s1 st2) = max 500 (spawnInterval st2 * 0.98) \<or>
   restarts e st2 \<and> 500 \<le> spawnInterval (before_collisions e dt s1 st2)"
proof -
  let ?st4 = "physics e dt s1 (restarts e st2) (after_restart e st2)"
  let ?st4' = "?st4\<lparr>bullets := alive dt (bullets ?st4)\<rparr>"
  have pre: "spawnInterval (before_collisions e dt s1 st2) = spawnInterval (spawn_tick e ?st4')"
    by (simp add: before_collisions_def Let_def)
  have tick: "spawnInterval (spawn_tick e ?st4') = spawnInterval ?st4' \<or>
              spawnInterval (spawn_tick e ?st4') = max 500 (spawnInterval ?st4' * 0.98)"
    by (simp add: spawn_tick_interval)
  show ?thesis
  proof (cases "restarts e st2")
    case True
    then have "spawnInterval ?st4' = 500 \<or> spawnInterval ?st4' = 1200"
      by (simp add: physics_frame after_restart_def reset_def tick_clock_def
          SPAWN_INTERVAL_BASE_def)
    with tick have "500 \<le> spawnInterval (spawn_tick e ?st4')" by auto
    with True pre show ?thesis by simp
  next
    case False
    then have "spawnInterval ?st4' = spawnInterval st2"
      by (simp add: physics_frame after_restart_def)
    with tick pre show ?thesis by auto
  qed
qed

lemma step_interval:
  assumes "500 \<le> spawnInterval st" "step e dt st = Some st'"
  shows "500 \<le> spawnInterval st' \<and> (\<not> restarts e st \<longrightarrow> spawnInterval st' \<le> spawnInterval st)"
proof (cases "ship st")
  case None
  then show ?thesis using assms by (simp add: step_def)
next
  case (Some s0)
  from step_hub [OF Some, of e dt] obtain st2 st6 S D F where
    f: "fire e (st\<lparr>ship := Some (controls e dt s0)\<rparr>) = Some st2" and
    c: "collide_bullets e (length (asteroids (before_collisions e dt (controls e dt s0) st2)))
           (before_collisions e dt (controls e dt s0) st2) = Some st6" and
    s: "step e dt st = Some (finish (moved e dt s0) st6)"
    by blast
  have st': "st' = finish (moved e dt s0) st6"
    using s assms(2) by simp
  have r: "restarts e st2 = restarts e st"
    using restarts_fire [OF f] by (simp add: restarts_def)
  have i2: "spawnInterval st2 = spawnInterval st"
    using fire_interval [OF f] by simp
  have "spawnInterval st' = spawnInterval (before_collisions e dt (controls e dt s0) st2)"
    using collide_bullets_frame [OF c] by (simp add: st' finish_frame)
  with before_collisions_interval [of e dt "controls e dt s0" st2] assms(1)
  show ?thesis unfolding r i2 by auto
qed

lemma run_interval:
  "500 \<le> spawnInterval st \<Longrightarrow> no_restart es st \<Longrightarrow>
   \<exists>st'. run es st = Some st' \<and> 500 \<le> spawnInterval st' \<and> spawnInterval st' \<le> spawnInterval st"
proof (induction es arbitrary: st)
  case Nil
  then show ?case by simp
next
  case (Cons p es)
  obtain e dt where p: "p = (e, dt)" by (cases p)
  from step_total [of e dt st] obtain st1 where s1: "step e dt st = Some st1" by blast
  have nr: "\<not> restarts e st" and rest: "no_restart es st1"
    using Cons.prems(2) by (simp_all add: p s1)
  from step_interval [OF Cons.prems(1) s1] nr
  have i1: "500 \<le> spawnInterval st1" "spawnInterval st1 \<le> spawnInterval st" by simp_all
  from Cons.IH [OF i1(1) rest] obtain st' where
    "run es st1 = Some st'" "500 \<le> spawnInterval st'" "spawnInterval st' \<le> spawnInterval st1"
    by blast
  with i1(2) show ?case by (auto simp: p s1)
qed

lemma reachable_interval: "reachable st \<Longrightarrow> 500 \<le> spawnInterval st"
proof (induction rule: reachable.induct)
  case (start e)
  show ?case by (simp add: initial_def SPAWN_INTERVAL_BASE_def)
next
  case (by_reset st e)
  show ?case by (simp add: reset_def tick_clock_def SPAWN_INTERVAL_BASE_def)
next
  case (by_spawn st e)
  then show ?case by (simp add: spawnAsteroid_frame)
next
  case (by_step st e dt st')
  then show ?case using step_interval by blast
next
  case (by_frame st e now st')
  show ?case
  proof (cases "gameOver st")
    case True
    then show ?thesis using by_frame by (auto simp: loop_gameOver)
  next
    case False
    have "500 \<le> spawnInterval (st\<lparr>lastTime := now\<rparr>)" using by_frame.IH by simp
    moreover have "step e (frame_dt now st) (st\<lparr>lastTime := now\<rparr>) = Some st'"
      using False by_frame.hyps(2) by (simp add: loop_running)
    ultimately show ?thesis using step_interval by blast
  qed
next
  case (by_key st e)
  show ?case by (simp add: keydown_KeyF_def SPAWN_INTERVAL_BASE_def)
qed


lemma loop_interval:
  assumes "500 \<le> spawnInterval st"
  shows "\<exists>st'. loop e now st = Some st' \<and> 500 \<le> spawnInterval st' \<and>
           spawnInterval st' \<le> spawnInterval st"
proof (cases "gameOver st")
  case True
  then show ?thesis using assms by (simp add: loop_gameOver)
next
  case False
  from step_total [of e "frame_dt now st" "st\<lparr>lastTime := now\<rparr>"] obtain st' where
    s: "step e (frame_dt now st) (st\<lparr>lastTime := now\<rparr>) = Some st'" by blast
  have "\<not> restarts e (st\<lparr>lastTime := now\<rparr>)"
    using False by (simp add: restarts_def)
  with step_interval [OF _ s] assms
  have "500 \<le> spawnInterval st'" "spawnInterval st' \<le> spawnInterval st" by simp_all
  with s False show ?thesis by (simp add: loop_running)
qed

text \<open>
  Claim C5, as the code has it. A spawn tick replaces the interval by
  \<open>Math.max(500, interval * 0.98)\<close>, which is at least 500 whatever it was before, and the
  interval is at least 500 in every state the program reaches. It does not increase along
  calls of \<open>step\<close> without a \<open>reset\<close>, in an animation frame, or in \<open>spawnAsteroid\<close>. Two
  functions store the fast value 500 or the base value 1200 whatever the interval was:
  \<open>reset\<close>, and the handler of the debug key F, which so raises the interval from 500 to
  1200 without a \<open>reset\<close> when it switches fast spawning off.
\<close>

theorem spawn_interval_floor_and_decay:
  "(spawnInterval st < clock e st - lastSpawn st \<longrightarrow>
      spawnInterval (spawn_tick e st) = max 500 (spawnInterval st * 0.98)) \<and>
   (spawnInterval st < clock e st - lastSpawn st \<longrightarrow> 500 \<le> spawnInterval (spawn_tick e st)) \<and>
   (reachable st \<longrightarrow> 500 \<le> spawnInterval st) \<and>
   (500 \<le> spawnInterval st \<and> no_restart es st \<longrightarrow>
      (\<exists>st'. run es st = Some st' \<and> 500 \<le> spawnInterval st' \<and>
             spawnInterval st' \<le> spawnInterval st)) \<and>
   (500 \<le> spawnInterval st \<longrightarrow>
      (\<exists>st'. loop e now st = Some st' \<and> 500 \<le> spawnInterval st' \<and>
             spawnInterval st' \<le> spawnInterval st)) \<and>
   spawnInterval (spawnAsteroid e st) = spawnInterval st \<and>
   spawnInterval (reset e st) = (if spawnFastToggle e then 500 else 1200) \<and>
   spawnInterval (keydown_KeyF e st) = (if spawnFastToggle e then 500 else 1200)"
proof (intro conjI impI)
  assume "reachable st"
  then show "500 \<le> spawnInterval st" by (rule reachable_interval)
next
  assume "500 \<le> spawnInterval st \<and> no_restart es st"
  then show "\<exists>st'. run es st = Some st' \<and> 500 \<le> spawnInterval st' \<and>
             spawnInterval st' \<le> spawnInterval st"
    using run_interval [of st es] by blast
next
  assume "500 \<le> spawnInterval st"
  then show "\<exists>st'. loop e now st = Some st' \<and> 500 \<le> spawnInterval st' \<and>
             spawnInterval st' \<le> spawnInterval st"
    by (rule loop_interval)
qed (simp_all add: spawn_tick_interval spawnAsteroid_frame reset_def tick_clock_def
      keydown_KeyF_def SPAWN_INTERVAL_BASE_def)

theorem spawn_interval_floor_and_decay_witness:
  "spawnInterval (arena [] []) < clock later (arena [] []) - lastSpawn (arena [] []) \<and>
   spawnInterval (spawn_tick later (arena [] [])) = 1176 \<and>
   reachable (reset quiet (initial quiet)) \<and>
   500 \<le> spawnInterval (reset quiet (initial quiet)) \<and>
   500 \<le> spawnInterval (arena [] []) \<and> no_restart [(later, 16)] (arena [] []) \<and>
   map_option spawnInterval (run [(later, 16)] (arena [] [])) = Some 1176 \<and>
   (\<exists>st'. run [(later, 16)] (arena [] []) = Some st' \<and> 500 \<le> spawnInterval st' \<and>
          spawnInterval st' \<le> spawnInterval (arena [] [])) \<and>
   map_option spawnInterval (loop later 16 (arena [] [])) = Some 1176 \<and>
   (\<exists>st'. loop later 16 (arena [] []) = Some st' \<and> 500 \<le> spawnInterval st' \<and>
          spawnInterval st' \<le> spawnInterval (arena [] []))"
proof -
  have h1: "spawnInterval (arena [] []) < clock later (arena [] []) - lastSpawn (arena [] [])"
    by (simp add: arena_def later_def clock_def)
  have h2: "reachable (reset quiet (initial quiet))"
    by (intro reachable.by_reset reachable.start)
  have h3: "500 \<le> spawnInterval (arena [] [])"
    by (simp add: arena_def)
  have s: "step later 16 (arena [] []) \<noteq> None"
    using step_total [of later 16 "arena [] []"] by auto
  have h4: "no_restart [(later, 16)] (arena [] [])"
    using s by (auto simp: restarts_def later_def quiet_def)
  have v: "map_option spawnInterval (step later 16 (arena [] [])) = Some 1176"
    by (simp add: later_def quiet_def pilot_def arena_def spawnAsteroid_def spawn_edge_def
        spawn_radius_half next_draw_def eval_defs)
  have r: "map_option spawnInterval (run [(later, 16)] (arena [] [])) = Some 1176"
    using v by (auto split: option.splits)
  have l: "map_option spawnInterval (loop later 16 (arena [] [])) = Some 1176"
    by (simp add: loop_def frame_dt_def later_def quiet_def pilot_def arena_def
        spawnAsteroid_def spawn_edge_def spawn_radius_half next_draw_def eval_defs)
  note inst = spawn_interval_floor_and_decay [of "arena [] []" later "[(later, 16)]" 16]
    spawn_interval_floor_and_decay [of "reset quiet (initial quiet)" quiet "[]" 0]
  from inst h1 have "spawnInterval (spawn_tick later (arena [] [])) = 1176"
    by (simp add: arena_def)
  moreover from inst h2 have "500 \<le> spawnInterval (reset quiet (initial quiet))"
    by blast
  moreover from inst h3 h4 have "\<exists>st'. run [(later, 16)] (arena [] []) = Some st' \<and>
      500 \<le> spawnInterval st' \<and> spawnInterval st' \<le> spawnInterval (arena [] [])"
    by blast
  moreover from inst h3 have "\<exists>st'. loop later 16 (arena [] []) = Some st' \<and>
      500 \<le> spawnInterval st' \<and> spawnInterval st' \<le> spawnInterval (arena [] [])"
    by blast
  ultimately show ?thesis using h1 h2 h3 h4 r l by blast
qed

theorem key_F_raises_interval_counterexample:
  "reachable hurried \<and> spawnInterval hurried = 500 \<and>
   reachable (keydown_KeyF quiet hurried) \<and>
   spawnInterval (keydown_KeyF quiet hurried) = 1200 \<and>
   spawnInterval hurried < spawnInterval (keydown_KeyF quiet hurried)"
proof -
  have r1: "reachable hurried"
    unfolding hurried_def
    by (intro reachable.by_key reachable.by_reset reachable.start)
  then have r2: "reachable (keydown_KeyF quiet hurried)"
    by (rule reachable.by_key)
  have v1: "spawnInterval hurried = 500"
    by (simp add: hurried_def keydown_KeyF_def fast_def quiet_def)
  have v2: "spawnInterval (keydown_KeyF quiet hurried) = 1200"
    by (simp add: keydown_KeyF_def quiet_def SPAWN_INTERVAL_BASE_def)
  from r1 r2 v1 v2 show ?thesis by (intro conjI) simp_all
qed

section \<open>Radii and fragmentation\<close>

lemma fragment_jitter:
  "\<bar>x (fragment e n a) - x a\<bar> \<le> 10 \<and> \<bar>y (fragment e n a) - y a\<bar> \<le> 10 \<and>
   \<bar>vx (fragment e n a) - vx a\<bar> \<le> 1 \<and> \<bar>vy (fragment e n a) - vy a\<bar> \<le> 1 \<and>
   radius (fragment e n a) = 0.55 * radius a"
proof -
  have "\<bar>rand u (- 10) 10\<bar> \<le> 10" "\<bar>rand u (- 1) 1\<bar> \<le> 1" for u
    using rand_bounds [of "- 10" 10 u] rand_bounds [of "- 1" 1 u] by simp_all
  then show ?thesis by (simp add: fragment_def Let_def)
qed

lemma reachable_radii: "reachable st \<Longrightarrow> radii_below 44 st"
proof (induction rule: reachable.induct)
  case (start e)
  show ?case by (simp add: radii_below_def initial_def)
next
  case (by_reset st e)
  show ?case by (simp add: radii_below_def reset_def tick_clock_def)
next
  case (by_spawn st e)
  from spawnAsteroid_asteroids [of e st] by_spawn.IH show ?case
    by (auto simp: radii_below_def)
next
  case (by_step st e dt st')
  from step_radii [OF by_step.IH _ by_step.hyps(2)] show ?case by simp
next
  case (by_frame st e now st')
  show ?case
  proof (cases "gameOver st")
    case True
    then show ?thesis using by_frame by (auto simp: loop_gameOver radii_below_def)
  next
    case False
    have "radii_below 44 (st\<lparr>lastTime := now\<rparr>)"
      using by_frame.IH by (simp add: radii_below_def)
    moreover have "step e (frame_dt now st) (st\<lparr>lastTime := now\<rparr>) = Some st'"
      using False by_frame.hyps(2) by (simp add: loop_running)
    ultimately show ?thesis using step_radii [of 44] by simp
  qed
next
  case (by_key st e)
  then show ?case by (simp add: radii_below_def keydown_KeyF_def)
qed

text \<open>
  Claim C10, as the code has it. \<open>spawnAsteroid\<close> draws a radius from 18 to 44: at the
  largest double below 1 the sum \<open>Math.random() * 26 + 18\<close> is rounded to 44. Every asteroid
  of every state the program reaches has a radius of at most 44. So its score award is
  positive, and the fragments it would leave have a radius of at most \<open>0.55 * 44\<close>, which
  is below the threshold 26: a fragment that is hit leaves no fragments.
\<close>

theorem radius_invariant:
  "18 \<le> spawn_radius u \<and> spawn_radius u \<le> 44 \<and>
   (reachable st \<longrightarrow>
      (\<forall>a \<in> set (asteroids st). radius a \<le> 44 \<and> 0 < award a \<and>
         (\<forall>f \<in> set (fragments e n a).
            radius f \<le> 0.55 * 44 \<and> radius f < 26 \<and> fragments e m f = [])))"
proof (intro conjI impI ballI)
  fix a f
  assume "reachable st" and a: "a \<in> set (asteroids st)"
  then have r: "radius a \<le> 44"
    using reachable_radii [of st] by (simp add: radii_below_def)
  then show "radius a \<le> 44" .
  from r have "1 \<le> \<lfloor>100 - radius a\<rfloor>" by (simp add: le_floor_iff)
  then show "0 < award a" by (simp add: award_def)
  assume "f \<in> set (fragments e n a)"
  then have "radius f = radius a * 0.55" by (simp add: fragments_radius)
  with r show "radius f \<le> 0.55 * 44" and lt: "radius f < 26" by simp_all
  from lt show "fragments e m f = []" by (simp add: fragments_def)
qed (use spawn_radius_bounds [of u] in simp_all)

theorem radius_invariant_witness:
  "reachable biggest \<and> map radius (asteroids biggest) = [44] \<and>
   map award (asteroids biggest) = [56] \<and>
   length (fragments quiet 0 (hd (asteroids biggest))) = 2 \<and>
   radius (hd (asteroids biggest)) \<le> 44 \<and> 0 < award (hd (asteroids biggest)) \<and>
   radius (hd (fragments quiet 0 (hd (asteroids biggest)))) < 26 \<and>
   fragments quiet 12 (hd (fragments quiet 0 (hd (asteroids biggest)))) = [] \<and>
   spawn_radius (Draw (1 / 2)) = 31"
proof -
  have h: "reachable biggest"
    unfolding biggest_def
    by (intro reachable.by_spawn reachable.by_reset reachable.start)
  have v: "map radius (asteroids biggest) = [44]" "map award (asteroids biggest) = [56]"
    by (simp_all add: biggest_def lucky_def spawnAsteroid_def spawn_edge_def spawn_radius_top
        next_draw_def reset_def initial_def tick_clock_def quiet_def rand_def draw_half
        award_def Let_def)
  from v(1) have a: "hd (asteroids biggest) \<in> set (asteroids biggest)"
    and r: "radius (hd (asteroids biggest)) = 44"
    by (cases "asteroids biggest"; simp)+
  from r have l: "length (fragments quiet 0 (hd (asteroids biggest))) = 2"
    by (simp add: fragments_length)
  then have f: "hd (fragments quiet 0 (hd (asteroids biggest))) \<in>
      set (fragments quiet 0 (hd (asteroids biggest)))"
    by (cases "fragments quiet 0 (hd (asteroids biggest))") simp_all
  from radius_invariant [of "Draw (1 / 2)" biggest quiet 0 12] h a f
  have "radius (hd (asteroids biggest)) \<le> 44 \<and> 0 < award (hd (asteroids biggest)) \<and>
    radius (hd (fragments quiet 0 (hd (asteroids biggest)))) < 26 \<and>
    fragments quiet 12 (hd (fragments quiet 0 (hd (asteroids biggest)))) = []"
    by blast
  with h v l spawn_radius_half show ?thesis by (intro conjI) simp_all
qed

theorem radius_44_counterexample:
  "draw_val top_draw = 1 - 1 / 2 ^ 53 \<and> spawn_radius top_draw = 44 \<and>
   reachable biggest \<and> map radius (asteroids biggest) = [44] \<and>
   \<not> radius (hd (asteroids biggest)) \<le> 43"
proof -
  have h: "reachable biggest"
    unfolding biggest_def
    by (intro reachable.by_spawn reachable.by_reset reachable.start)
  have v: "map radius (asteroids biggest) = [44]"
    by (simp add: biggest_def lucky_def spawnAsteroid_def spawn_edge_def spawn_radius_top
        next_draw_def reset_def initial_def tick_clock_def quiet_def rand_def draw_half Let_def)
  then have "radius (hd (asteroids biggest)) = 44"
    by (cases "asteroids biggest") simp_all
  with h v show ?thesis by (simp add: draw_top spawn_radius_top)
qed

lemma scan_bullets_hit:
  assumes "\<exists>b \<in> set (bullets st). touches a b"
  shows "\<exists>j < length (bullets st). touches a (bullets st ! j) \<and>
           scan_bullets e a i (length (bullets st)) st = Some (hit e a i j st)"
proof -
  from assms obtain j where "j < length (bullets st)" "touches a (bullets st ! j)"
    by (auto simp: in_set_conv_nth)
  with scan_bullets_cases [of "length (bullets st)" st e a i] show ?thesis by auto
qed

lemma fragments_two:
  "26 < radius a \<Longrightarrow> fragments e n a = [fragment e n a, fragment e (n + 6) a]"
  by (simp add: fragments_def)

text \<open>
  Claim C6. When the scan of the bullets for the asteroid \<open>a\<close> at index \<open>i\<close> finds a bullet
  that touches it, it runs the body \<open>hit\<close> once: that bullet and the asteroid at \<open>i\<close> are
  removed and the fragments of \<open>a\<close> are appended. Above the radius 26 these are exactly two
  asteroids, of 0.55 times the radius of \<open>a\<close>, at most 10 units from it on each axis and
  with a velocity at most 1 unit from its velocity on each axis; up to 26 there is none.
\<close>

theorem fragmentation:
  "((\<exists>b \<in> set (bullets st). touches a b) \<longrightarrow>
      (\<exists>j < length (bullets st).
         scan_bullets e a i (length (bullets st)) st = Some (hit e a i j st) \<and>
         bullets (hit e a i j st) = take j (bullets st) @ drop (Suc j) (bullets st) \<and>
         asteroids (hit e a i j st) =
           take i (asteroids st) @ drop (Suc i) (asteroids st) @ fragments e (drawn st) a)) \<and>
   (26 < radius a \<longrightarrow>
      (\<exists>c1 c2. fragments e n a = [c1, c2] \<and>
         (\<forall>c \<in> {c1, c2}. radius c = 0.55 * radius a \<and>
            \<bar>x c - x a\<bar> \<le> 10 \<and> \<bar>y c - y a\<bar> \<le> 10 \<and>
            \<bar>vx c - vx a\<bar> \<le> 1 \<and> \<bar>vy c - vy a\<bar> \<le> 1))) \<and>
   (radius a \<le> 26 \<longrightarrow> fragments e n a = []) \<and>
   (radius a = 40 \<longrightarrow> map radius (fragments e n a) = [22, 22]) \<and>
   (radius a = 20 \<longrightarrow> fragments e n a = [])"
proof (intro conjI impI)
  assume "\<exists>b \<in> set (bullets st). touches a b"
  from scan_bullets_hit [OF this, of e i] obtain j where
    "j < length (bullets st)"
    "scan_bullets e a i (length (bullets st)) st = Some (hit e a i j st)"
    by blast
  then show "\<exists>j < length (bullets st).
         scan_bullets e a i (length (bullets st)) st = Some (hit e a i j st) \<and>
         bullets (hit e a i j st) = take j (bullets st) @ drop (Suc j) (bullets st) \<and>
         asteroids (hit e a i j st) =
           take i (asteroids st) @ drop (Suc i) (asteroids st) @ fragments e (drawn st) a"
    by (auto simp: hit_bullets hit_asteroids array_splice_def)
next
  assume big: "26 < radius a"
  have "\<forall>c \<in> {fragment e n a, fragment e (n + 6) a}. radius c = 0.55 * radius a \<and>
            \<bar>x c - x a\<bar> \<le> 10 \<and> \<bar>y c - y a\<bar> \<le> 10 \<and>
            \<bar>vx c - vx a\<bar> \<le> 1 \<and> \<bar>vy c - vy a\<bar> \<le> 1"
    using fragment_jitter [of e n a] fragment_jitter [of e "n + 6" a] by blast
  with fragments_two [OF big, of e n]
  show "\<exists>c1 c2. fragments e n a = [c1, c2] \<and>
         (\<forall>c \<in> {c1, c2}. radius c = 0.55 * radius a \<and>
            \<bar>x c - x a\<bar> \<le> 10 \<and> \<bar>y c - y a\<bar> \<le> 10 \<and>
            \<bar>vx c - vx a\<bar> \<le> 1 \<and> \<bar>vy c - vy a\<bar> \<le> 1)"
    by blast
next
  assume "radius a \<le> 26"
  then show "fragments e n a = []" by (simp add: fragments_def)
next
  assume "radius a = 40"
  then show "map radius (fragments e n a) = [22, 22]"
    by (simp add: fragments_def fragment_def)
next
  assume "radius a = 20"
  then show "fragments e n a = []" by (simp add: fragments_def)
qed

theorem fragmentation_witness:
  "(\<exists>b \<in> set (bullets (arena [rock 40] [shot])). touches (rock 40) b) \<and>
   26 < radius (rock 40) \<and> radius (rock 20) \<le> 26 \<and>
   scan_bullets quiet (rock 40) 0 1 (arena [rock 40] [shot]) =
     Some (hit quiet (rock 40) 0 0 (arena [rock 40] [shot])) \<and>
   map radius (asteroids (hit quiet (rock 40) 0 0 (arena [rock 40] [shot]))) = [22, 22] \<and>
   map x (asteroids (hit quiet (rock 40) 0 0 (arena [rock 40] [shot]))) = [100, 100] \<and>
   asteroids (hit quiet (rock 20) 0 0 (arena [rock 20] [shot])) = [] \<and>
   map_option (map radius \<circ> asteroids) (step quiet 16 (arena [rock 40] [shot])) = Some [22, 22] \<and>
   map_option asteroids (step quiet 16 (arena [rock 20] [shot])) = Some [] \<and>
   map radius (fragments quiet 0 (rock 40)) = [22, 22] \<and> fragments quiet 0 (rock 20) = []"
proof -
  have h: "\<exists>b \<in> set (bullets (arena [rock 40] [shot])). touches (rock 40) b"
    by (simp add: arena_def rock_def shot_def touches_def hypot_same_x)
  have r: "26 < radius (rock 40)" "radius (rock 20) \<le> 26"
          "radius (rock 40) = 40" "radius (rock 20) = 20"
    by (simp_all add: rock_def)
  have e1: "scan_bullets quiet (rock 40) 0 1 (arena [rock 40] [shot]) =
     Some (hit quiet (rock 40) 0 0 (arena [rock 40] [shot]))"
    by (simp add: arena_def rock_def shot_def touches_def hypot_same_x)
  have e2: "map radius (asteroids (hit quiet (rock 40) 0 0 (arena [rock 40] [shot]))) = [22, 22]"
    "map x (asteroids (hit quiet (rock 40) 0 0 (arena [rock 40] [shot]))) = [100, 100]"
    "asteroids (hit quiet (rock 20) 0 0 (arena [rock 20] [shot])) = []"
    by (simp_all add: quiet_def rock_def shot_def arena_def eval_defs)
  have e3: "map_option (map radius \<circ> asteroids) (step quiet 16 (arena [rock 40] [shot])) =
      Some [22, 22]"
    "map_option asteroids (step quiet 16 (arena [rock 20] [shot])) = Some []"
    by (simp_all add: quiet_def rock_def shot_def pilot_def arena_def eval_defs)
  from fragmentation [of "arena [rock 40] [shot]" "rock 40" quiet 0 0] r
  have f1: "map radius (fragments quiet 0 (rock 40)) = [22, 22]" by blast
  from fragmentation [of "arena [rock 20] [shot]" "rock 20" quiet 0 0] r
  have f2: "fragments quiet 0 (rock 20) = []" by blast
  from h r(1,2) e1 e2 e3 f1 f2 show ?thesis by blast
qed

section \<open>Removal while iterating\<close>

lemma alive_subseq: "subseq (alive dt bs) (map (move_bullet dt) bs)"
  by (simp add: alive_def)

lemma drifting_subseq: "subseq (drifting e dt as) (map (move_asteroid dt) as)"
  by (simp add: drifting_def)

lemma scan_bullets_once:
  "scan_bullets e a i (length (bullets st)) st = Some st \<or>
   (\<exists>j < length (bullets st).
      scan_bullets e a i (length (bullets st)) st = Some (hit e a i j st) \<and>
      Suc (length (bullets (hit e a i j st))) = length (bullets st))"
proof -
  from scan_bullets_cases [of "length (bullets st)" st e a i] consider
      "scan_bullets e a i (length (bullets st)) st = Some st"
    | j where "j < length (bullets st)"
        "scan_bullets e a i (length (bullets st)) st = Some (hit e a i j st)"
    by auto
  then show ?thesis
  proof cases
    case 1
    then show ?thesis by simp
  next
    case 2
    then show ?thesis
      using array_splice_length [of j "bullets st"] by (auto simp: hit_bullets)
  qed
qed

text \<open>
  Claim C9. No loop of \<open>step\<close> reads an index beyond the end of its array: \<open>step\<close> and each
  of its four loops, started at the last index, return a state. The loop over the bullets
  and the loop over the asteroids keep a subsequence of the moved objects. The scan for one
  asteroid either changes nothing or runs \<open>hit\<close> for exactly one bullet, which removes that
  one bullet. The whole collision loop leaves the surviving asteroids \<open>S\<close>, a subsequence of
  the asteroids before it, followed by the fragments \<open>F\<close>; the destroyed asteroids \<open>D\<close> are
  as many as the bullets removed, every asteroid is either in \<open>S\<close> or in \<open>D\<close>, and the
  bullets left are a subsequence of the bullets before.
\<close>

theorem one_collision_per_entity:
  "(\<exists>st'. step e dt st = Some st') \<and>
   update_bullets dt (length (bullets st)) (bullets st) = Some (alive dt (bullets st)) \<and>
   subseq (alive dt (bullets st)) (map (move_bullet dt) (bullets st)) \<and>
   update_asteroids e dt (length (asteroids st)) (asteroids st) =
     Some (drifting e dt (asteroids st)) \<and>
   subseq (drifting e dt (asteroids st)) (map (move_asteroid dt) (asteroids st)) \<and>
   (\<exists>st'. collide_ship s (length (asteroids st)) st = Some st' \<and>
      asteroids st' = asteroids st \<and> bullets st' = bullets st) \<and>
   (scan_bullets e a i (length (bullets st)) st = Some st \<or>
    (\<exists>j < length (bullets st).
       scan_bullets e a i (length (bullets st)) st = Some (hit e a i j st) \<and>
       Suc (length (bullets (hit e a i j st))) = length (bullets st))) \<and>
   (\<exists>st' S D F. collide_bullets e (length (asteroids st)) st = Some st' \<and>
      asteroids st' = S @ F \<and> subseq S (asteroids st) \<and> set D \<subseteq> set (asteroids st) \<and>
      length S + length D = length (asteroids st) \<and>
      subseq (bullets st') (bullets st) \<and>
      length (bullets st') + length D = length (bullets st) \<and>
      length F = 2 * length (filter (\<lambda>a. 26 < radius a) D))"
proof (intro conjI)
  show "\<exists>st'. step e dt st = Some st'" by (rule step_total)
  show "update_bullets dt (length (bullets st)) (bullets st) = Some (alive dt (bullets st))"
    by (rule update_bullets_all)
  show "update_asteroids e dt (length (asteroids st)) (asteroids st) =
     Some (drifting e dt (asteroids st))"
    by (rule update_asteroids_all)
  show "\<exists>st'. collide_ship s (length (asteroids st)) st = Some st' \<and>
      asteroids st' = asteroids st \<and> bullets st' = bullets st"
    by (simp add: collide_ship_all)
  show "scan_bullets e a i (length (bullets st)) st = Some st \<or>
    (\<exists>j < length (bullets st).
       scan_bullets e a i (length (bullets st)) st = Some (hit e a i j st) \<and>
       Suc (length (bullets (hit e a i j st))) = length (bullets st))"
    by (rule scan_bullets_once)
  from collide_bullets_resolution [of "length (asteroids st)" st e] obtain st' S D F where
    c: "collide_bullets e (length (asteroids st)) st = Some st'" and
    r: "resolution (length (asteroids st)) st st' S D F"
    by auto
  from r have "asteroids st' = S @ F" "subseq S (asteroids st)" "set D \<subseteq> set (asteroids st)"
    "length S + length D = length (asteroids st)" "subseq (bullets st') (bullets st)"
    "length (bullets st') + length D = length (bullets st)"
    "length F = 2 * length (filter (\<lambda>a. 26 < radius a) D)"
    unfolding resolution_def by simp_all
  with c show "\<exists>st' S D F. collide_bullets e (length (asteroids st)) st = Some st' \<and>
      asteroids st' = S @ F \<and> subseq S (asteroids st) \<and> set D \<subseteq> set (asteroids st) \<and>
      length S + length D = length (asteroids st) \<and>
      subseq (bullets st') (bullets st) \<and>
      length (bullets st') + length D = length (bullets st) \<and>
      length F = 2 * length (filter (\<lambda>a. 26 < radius a) D)"
    by blast
qed (rule alive_subseq drifting_subseq)+

theorem one_collision_per_entity_witness:
  "collide_bullets quiet 2 (arena [rock 20, rock 40] [shot, shot, shot]) =
     Some ((arena [fragment quiet 0 (rock 40), fragment quiet 6 (rock 40)] [shot])
             \<lparr>score := 140, drawn := 12\<rparr>) \<and>
   (\<exists>st'. step quiet 16 (arena [rock 20, rock 40] [shot, shot, shot]) = Some st') \<and>
   map_option (length \<circ> bullets) (step quiet 16 (arena [rock 20, rock 40] [shot, shot, shot])) =
     Some 1 \<and>
   (\<exists>st' S (D :: Asteroid list) F.
      collide_bullets quiet (length (asteroids (arena [rock 20, rock 40] [shot, shot, shot])))
        (arena [rock 20, rock 40] [shot, shot, shot]) = Some st' \<and>
      asteroids st' = S @ F \<and> length S + length D = 2 \<and> length (bullets st') + length D = 3)"
proof -
  let ?st = "arena [rock 20, rock 40] [shot, shot, shot]"
  have c: "collide_bullets quiet 2 ?st =
     Some ((arena [fragment quiet 0 (rock 40), fragment quiet 6 (rock 40)] [shot])
             \<lparr>score := 140, drawn := 12\<rparr>)"
    by (simp add: numeral_2_eq_2 arena_def rock_def shot_def touches_def hypot_same_x
        hit_def fragments_def award_def array_splice_def Let_def)
  have b: "map_option (length \<circ> bullets) (step quiet 16 ?st) = Some 1"
    by (simp add: quiet_def rock_def shot_def pilot_def arena_def eval_defs)
  have l: "length (asteroids ?st) = 2" "length (bullets ?st) = 3"
    by (simp_all add: arena_def)
  note inst = one_collision_per_entity [of quiet 16 ?st pilot "rock 40" 1]
  from inst have a: "\<exists>st'. step quiet 16 ?st = Some st'"
    by (rule conjunct1)
  note last = inst [THEN conjunct2, THEN conjunct2, THEN conjunct2, THEN conjunct2,
      THEN conjunct2, THEN conjunct2, THEN conjunct2]
  from last obtain st' S F and D :: "Asteroid list" where
    "collide_bullets quiet (length (asteroids ?st)) ?st = Some st'" "asteroids st' = S @ F"
    "length S + length D = length (asteroids ?st)"
    "length (bullets st') + length D = length (bullets ?st)"
    by (elim exE conjE) blast
  then have "\<exists>st' S (D :: Asteroid list) F.
      collide_bullets quiet (length (asteroids ?st)) ?st = Some st' \<and>
      asteroids st' = S @ F \<and> length S + length D = 2 \<and> length (bullets st') + length D = 3"
    unfolding l by (intro exI conjI)
  with a c b show ?thesis by (intro conjI)
qed

end
